theory Spec2Isabelle
  imports Complex_Main "HOL-Library.Char_ord" "HOL-Library.Log_Nat"
begin

section \<open>Entities\<close>

text \<open>
  A subject is stored by the program as the dictionary
  \<^verbatim>\<open>{'id': ..., 'mark': ..., 'grade': ...}\<close>; a student is an object with the
  attributes \<^verbatim>\<open>id, name, email, password, subjects\<close>. Marks are Python integers,
  identifiers are strings of decimal digits and grades are the strings
  \<^verbatim>\<open>"Z", "P", "C", "D", "HD"\<close>.
  Python strings are modelled as HOL strings: lists of characters with code points below 256.
\<close>

record subject =
  subj_id :: string
  mark :: int
  grade :: string

record student =
  student_id :: string
  name :: string
  email :: string
  password :: string
  subjects :: "subject list"

section \<open>Grade policy\<close>

text \<open>
  \<^verbatim>\<open>Subject.assign_grade(mark)\<close>. The argument is an integer mark or a float average.
  Python compares an integer or a finite float with the integer thresholds by value, so
  the argument is the rational number that the integer or the float denotes.
\<close>

definition assign_grade :: "rat \<Rightarrow> string" where
  "assign_grade m =
     (if m < 50 then ''Z''
      else if 50 \<le> m \<and> m < 65 then ''P''
      else if 65 \<le> m \<and> m < 75 then ''C''
      else if 75 \<le> m \<and> m < 85 then ''D''
      else ''HD'')"

section \<open>Python numbers\<close>

text \<open>
  Marks and their sums are Python integers, which are unbounded. The quotient
  \<^verbatim>\<open>total_marks / len(self.subjects)\<close> of two integers is a Python float: the double nearest
  to the exact quotient, the nearer even one at a tie, and an \<^verbatim>\<open>OverflowError\<close> when that
  double would be out of range. A finite double is modelled by the rational number it
  denotes.

  \<open>round_half_even\<close> rounds to the nearest integer, ties to the even one. \<open>ilog2 a\<close> is the
  exponent of the binade of a positive \<open>a\<close>, that is \<open>2 powi ilog2 a \<le> a < 2 powi (ilog2 a + 1)\<close>.
  A double has 53 significant bits, so in a binade of exponent \<open>e\<close> the doubles are the
  multiples of \<open>2 powi (e - 52)\<close>; below \<open>2 powi (- 1022)\<close> they are the multiples of
  \<open>2 powi (- 1074)\<close>. \<open>round_magnitude\<close> rounds a positive number to such a multiple, and
  \<open>double_of\<close> is the double of any rational, \<open>None\<close> when it is out of range.
\<close>

definition round_half_even :: "rat \<Rightarrow> int" where
  "round_half_even y =
     (let f = \<lfloor>y\<rfloor>; d = y - of_int f
      in if d < 1 / 2 then f else if 1 / 2 < d then f + 1 else if even f then f else f + 1)"

definition ilog2 :: "rat \<Rightarrow> int" where
  "ilog2 a = (if 1 \<le> a then bitlen \<lfloor>a\<rfloor> - 1 else - int (ceillog2 (nat \<lceil>1 / a\<rceil>)))"

definition round_magnitude :: "rat \<Rightarrow> rat" where
  "round_magnitude a =
     (let e = max (ilog2 a) (- 1022); ulp = 2 powi (e - 52)
      in of_int (round_half_even (a / ulp)) * ulp)"

definition double_of :: "rat \<Rightarrow> rat option" where
  "double_of x =
     (if x = 0 then Some 0
      else let r = round_magnitude \<bar>x\<bar>
           in if 2 ^ 1024 \<le> r then None else Some (sgn x * r))"

text \<open>The exceptions that the arithmetic and the dictionaries of the program can raise.\<close>

datatype exception = ZeroDivisionError | OverflowError | KeyError

text \<open>\<^verbatim>\<open>a / b\<close> on two integers.\<close>

definition true_divide :: "int \<Rightarrow> int \<Rightarrow> exception + rat" where
  "true_divide a b =
     (if b = 0 then Inl ZeroDivisionError
      else case double_of (of_int a / of_int b) of
        None \<Rightarrow> Inl OverflowError
      | Some r \<Rightarrow> Inr r)"

section \<open>Credential validator\<close>

text \<open>
  The two validators call \<^verbatim>\<open>re.match(pattern, s) is not None\<close>. The patterns use only the
  anchors \<^verbatim>\<open>^\<close> and \<^verbatim>\<open>$\<close>, literal characters, character classes and the
  repetitions \<^verbatim>\<open>+\<close> and \<^verbatim>\<open>{n,}\<close> of a class, so a pattern is a list of such tokens.
  \<^verbatim>\<open>re.match\<close> looks for a match that starts at position 0 and may end anywhere.
  Without the MULTILINE flag \<^verbatim>\<open>^\<close> matches at position 0 only, and \<^verbatim>\<open>$\<close> matches at
  the end of the string and also just before a line feed that is the last character.
  On code points below 256 the class \<^verbatim>\<open>\d\<close> is the ten digits 0 to 9.
\<close>

datatype cclass = Ranges "(char \<times> char) list" | Digit

fun in_class :: "cclass \<Rightarrow> char \<Rightarrow> bool" where
  "in_class (Ranges rs) c = list_ex (\<lambda>(lo, hi). lo \<le> c \<and> c \<le> hi) rs"
| "in_class Digit c = (CHR ''0'' \<le> c \<and> c \<le> CHR ''9'')"

datatype token = Bol | Eol | Lit char | One cclass | AtLeast nat cclass

text \<open>
  \<open>re_from p pos s\<close>: the token list \<open>p\<close> matches at position \<open>pos\<close> of the subject
  string, whose remainder from that position on is \<open>s\<close>.
\<close>

fun re_from :: "token list \<Rightarrow> nat \<Rightarrow> string \<Rightarrow> bool" where
  "re_from [] pos s = True"
| "re_from (Bol # ps) pos s = (pos = 0 \<and> re_from ps pos s)"
| "re_from (Eol # ps) pos s = ((s = [] \<or> s = [CHR 0x0A]) \<and> re_from ps pos s)"
| "re_from (Lit c # ps) pos [] = False"
| "re_from (Lit c # ps) pos (x # xs) = (x = c \<and> re_from ps (Suc pos) xs)"
| "re_from (One k # ps) pos [] = False"
| "re_from (One k # ps) pos (x # xs) = (in_class k x \<and> re_from ps (Suc pos) xs)"
| "re_from (AtLeast (Suc n) k # ps) pos [] = False"
| "re_from (AtLeast (Suc n) k # ps) pos (x # xs) =
     (in_class k x \<and> re_from (AtLeast n k # ps) (Suc pos) xs)"
| "re_from (AtLeast 0 k # ps) pos [] = re_from ps pos []"
| "re_from (AtLeast 0 k # ps) pos (x # xs) =
     ((in_class k x \<and> re_from (AtLeast 0 k # ps) (Suc pos) xs) \<or> re_from ps pos (x # xs))"

definition re_match :: "token list \<Rightarrow> string \<Rightarrow> bool" where
  "re_match p s = re_from p 0 s"

definition letters :: cclass where
  "letters = Ranges [(CHR ''a'', CHR ''z''), (CHR ''A'', CHR ''Z'')]"

text \<open>\<^verbatim>\<open>^[a-zA-Z]+\.[a-zA-Z]+@university\.com$\<close>\<close>

definition email_pattern :: "token list" where
  "email_pattern =
     Bol # AtLeast 1 letters # Lit CHR ''.'' # AtLeast 1 letters # map Lit ''@university''
       @ Lit CHR ''.'' # map Lit ''com'' @ [Eol]"

text \<open>\<^verbatim>\<open>^[A-Z][a-zA-Z]{4,}\d{3,}$\<close>\<close>

definition password_pattern :: "token list" where
  "password_pattern =
     [Bol, One (Ranges [(CHR ''A'', CHR ''Z'')]), AtLeast 4 letters, AtLeast 3 Digit, Eol]"

definition is_valid_email :: "string \<Rightarrow> bool" where
  "is_valid_email email' = re_match email_pattern email'"

definition is_valid_password :: "string \<Rightarrow> bool" where
  "is_valid_password password' = re_match password_pattern password'"

subsection \<open>The validators as the specification words them\<close>

text \<open>
  The specification describes a valid email as two alphabetic tokens separated by a literal
  dot, followed by the fixed domain, and nothing else; and a valid password as one uppercase
  letter, four or more further letters, three or more digits, and nothing else.
\<close>

definition is_letter :: "char \<Rightarrow> bool" where
  "is_letter c \<longleftrightarrow> (CHR ''a'' \<le> c \<and> c \<le> CHR ''z'') \<or> (CHR ''A'' \<le> c \<and> c \<le> CHR ''Z'')"

definition is_digit :: "char \<Rightarrow> bool" where
  "is_digit c \<longleftrightarrow> CHR ''0'' \<le> c \<and> c \<le> CHR ''9''"

definition spec_valid_email :: "string \<Rightarrow> bool" where
  "spec_valid_email s \<longleftrightarrow>
     (\<exists>a b. a \<noteq> [] \<and> b \<noteq> [] \<and> list_all is_letter a \<and> list_all is_letter b \<and>
        s = a @ ''.'' @ b @ ''@university.com'')"

definition spec_valid_password :: "string \<Rightarrow> bool" where
  "spec_valid_password s \<longleftrightarrow>
     (\<exists>u ls ds. CHR ''A'' \<le> u \<and> u \<le> CHR ''Z'' \<and> 4 \<le> length ls \<and> list_all is_letter ls \<and>
        3 \<le> length ds \<and> list_all is_digit ds \<and> s = u # ls @ ds)"

section \<open>Record store\<close>

text \<open>
  The store is the pickled dictionary from email to student. A Python dictionary iterates in
  insertion order, and two operations depend on that order, so it is an association list:
  \<open>dict_set\<close> is \<^verbatim>\<open>data[k] = v\<close> (an existing key keeps its place, a new key goes last),
  \<open>dict_del\<close> is \<^verbatim>\<open>del data[k]\<close> and \<open>dict_contains\<close> is \<^verbatim>\<open>k in data\<close>.
  The only \<^verbatim>\<open>del\<close> of the program deletes a key it has just read from the dictionary, so
  the missing-key error of \<^verbatim>\<open>del\<close> is not a branch of its caller.
  \<^verbatim>\<open>load_data\<close> after \<^verbatim>\<open>save_data\<close> returns an equal dictionary of fresh copies: a student
  held by a caller and the record in the store are separate values.
\<close>

type_synonym store = "(string \<times> student) list"

fun dict_set :: "'k \<Rightarrow> 'v \<Rightarrow> ('k \<times> 'v) list \<Rightarrow> ('k \<times> 'v) list" where
  "dict_set k v [] = [(k, v)]"
| "dict_set k v ((k', v') # kvs) =
     (if k' = k then (k, v) # kvs else (k', v') # dict_set k v kvs)"

fun dict_del :: "'k \<Rightarrow> ('k \<times> 'v) list \<Rightarrow> ('k \<times> 'v) list" where
  "dict_del k [] = []"
| "dict_del k ((k', v') # kvs) = (if k' = k then kvs else (k', v') # dict_del k kvs)"

definition dict_contains :: "'k \<Rightarrow> ('k \<times> 'v) list \<Rightarrow> bool" where
  "dict_contains k kvs \<longleftrightarrow> k \<in> fst ` set kvs"

definition clear_data :: "store \<Rightarrow> store" where
  "clear_data data = []"

section \<open>Student and subject\<close>

text \<open>
  \<^verbatim>\<open>f"{n:06}"\<close> and \<^verbatim>\<open>f"{n:03}"\<close>: the decimal digits of \<open>n\<close>, padded with zeros on the
  left to the given width.
\<close>

fun decimal :: "nat \<Rightarrow> string" where
  "decimal n =
     (if n < 10 then [''0123456789'' ! n]
      else decimal (n div 10) @ [''0123456789'' ! (n mod 10)])"

definition zero_pad :: "nat \<Rightarrow> nat \<Rightarrow> string" where
  "zero_pad w n = replicate (w - length (decimal n)) CHR ''0'' @ decimal n"

text \<open>
  The constructors draw from \<^verbatim>\<open>random.randint\<close>. The numbers drawn are parameters of the
  model: \<^verbatim>\<open>Student(name, email, password)\<close> draws one number for its identifier, and
  \<^verbatim>\<open>Subject()\<close> draws one for its identifier and then one for its mark.
\<close>

definition Student_init :: "string \<Rightarrow> string \<Rightarrow> string \<Rightarrow> nat \<Rightarrow> student" where
  "Student_init name' email' password' r =
     \<lparr>student_id = zero_pad 6 r, name = name', email = email', password = password',
      subjects = []\<rparr>"

definition Subject_init :: "nat \<times> nat \<Rightarrow> subject" where
  "Subject_init r =
     \<lparr>subj_id = zero_pad 3 (fst r), mark = int (snd r),
      grade = assign_grade (of_int (int (snd r)))\<rparr>"

text \<open>
  The loop of \<^verbatim>\<open>Student.enroll_subject\<close> that replaces the new subject while its identifier
  is already enrolled. The list holds the draws of the \<^verbatim>\<open>Subject()\<close> calls still to come;
  \<open>None\<close> says that the loop is still running when they are used up.
\<close>

fun unique_subject :: "string list \<Rightarrow> subject \<Rightarrow> (nat \<times> nat) list \<Rightarrow> subject option" where
  "unique_subject existing_subject_ids new_subject [] =
     (if subj_id new_subject \<in> set existing_subject_ids then None else Some new_subject)"
| "unique_subject existing_subject_ids new_subject (r # rnd) =
     (if subj_id new_subject \<in> set existing_subject_ids
      then unique_subject existing_subject_ids (Subject_init r) rnd
      else Some new_subject)"

text \<open>
  \<^verbatim>\<open>Student.enroll_subject\<close> returns \<^verbatim>\<open>None\<close> or the new subject, and appends the subject
  to the student: the model returns the returned value and the student afterwards.
\<close>

definition Student_enroll_subject ::
  "student \<Rightarrow> (nat \<times> nat) list \<Rightarrow> (subject option \<times> student) option" where
  "Student_enroll_subject self rnd =
     (if length (subjects self) \<ge> 4 then Some (None, self)
      else case rnd of
        [] \<Rightarrow> None
      | r # rnd' \<Rightarrow>
          (case unique_subject (map subj_id (subjects self)) (Subject_init r) rnd' of
             None \<Rightarrow> None
           | Some subject_info \<Rightarrow>
               Some (Some subject_info, self\<lparr>subjects := subjects self @ [subject_info]\<rparr>)))"

definition drop_subject :: "student \<Rightarrow> string \<Rightarrow> student" where
  "drop_subject self subject_id =
     self\<lparr>subjects := filter (\<lambda>subject. subj_id subject \<noteq> subject_id) (subjects self)\<rparr>"

text \<open>
  \<^verbatim>\<open>calculate_average_mark\<close> returns the integer 0 for a student without subjects and
  otherwise the float \<^verbatim>\<open>total_marks / len(self.subjects)\<close>; \<^verbatim>\<open>is_passing\<close> compares that
  number with 50, and Python compares a float with an integer by value. An exception of the
  division leaves both methods.
\<close>

definition calculate_average_mark :: "student \<Rightarrow> exception + rat" where
  "calculate_average_mark self =
     (if subjects self = [] then Inr 0
      else true_divide (sum_list (map mark (subjects self))) (int (length (subjects self))))"

definition is_passing :: "student \<Rightarrow> exception + bool" where
  "is_passing self =
     (case calculate_average_mark self of
        Inl e \<Rightarrow> Inl e
      | Inr average \<Rightarrow> Inr (average \<ge> 50))"

subsection \<open>The average as the specification words it\<close>

text \<open>
  The specification speaks of the unweighted mean of the student's subject marks, 0 for a
  student without subjects: the exact quotient.
\<close>

definition mean_mark :: "student \<Rightarrow> rat" where
  "mean_mark self =
     (if subjects self = [] then 0
      else of_int (sum_list (map mark (subjects self))) / of_nat (length (subjects self)))"

text \<open>
  The students for whom the float decides every threshold of the grade policy as the exact
  mean does: fewer than \<open>2 ^ 47\<close> subjects, and a sum of marks within the range of a double.
  The data model of the specification, at most four subjects with marks from 25 to 100, is
  well inside.
\<close>

definition in_float_range :: "student \<Rightarrow> bool" where
  "in_float_range self \<longleftrightarrow>
     length (subjects self) < 2 ^ 47 \<and> \<bar>sum_list (map mark (subjects self))\<bar> < 2 ^ 1023"

section \<open>Student controller\<close>

text \<open>
  \<^verbatim>\<open>login_student\<close> returns the stored student or a message string. The two messages are
  kept as the source writes them, with their colour escape sequences (\<open>CHR 0x1B\<close> is the
  escape character \<^verbatim>\<open>\033\<close>): the statement at the end of the function, for a password
  that differs from the stored one, returns the same string as the first check.
\<close>

definition incorrect_format_message :: string where
  "incorrect_format_message =
     CHR 0x1B # ''[91mIncorrect email or password format.'' @ CHR 0x1B # ''[0m''"

definition does_not_exist_message :: string where
  "does_not_exist_message =
     CHR 0x1B # ''[93mEmail and password formats acceptable.'' @ CHR 0x1B # ''[0m'' @ CHR 0x0A #
     CHR 0x1B # ''[91mStudent does not exist.'' @ CHR 0x1B # ''[0m''"

definition login_student :: "store \<Rightarrow> string \<Rightarrow> string \<Rightarrow> string + student" where
  "login_student data email' password' =
     (if \<not> is_valid_email email' \<or> \<not> is_valid_password password'
      then Inl incorrect_format_message
      else case map_of data email' of
        None \<Rightarrow> Inl does_not_exist_message
      | Some stored \<Rightarrow>
          if password stored = password' then Inr stored
          else Inl incorrect_format_message)"

text \<open>
  The other operations report a failure by printing a message and returning early. The early
  returns are the values of \<open>error\<close>, named as in the specification's error taxonomy:
  \<^item> \<open>DuplicateEmail\<close>: \<^verbatim>\<open>register_student\<close> prints "Student already exists." and returns
    \<^verbatim>\<open>None\<close>;
  \<^item> \<open>InvalidEmailFormat\<close>, \<open>InvalidPasswordFormat\<close>: a caller or
    \<^verbatim>\<open>change_student_password\<close> reports an invalid format and returns;
  \<^item> \<open>CapacityExceeded\<close>: \<^verbatim>\<open>SubjectController.enroll_subject\<close> prints "Students are allowed
    to enrol in 4 subjects only." and returns;
  \<^item> \<open>SubjectNotFound\<close>: \<^verbatim>\<open>remove_subject\<close> prints "Subject ... not found." and returns.
  An operation on a student object returns its outcome, the student object afterwards and
  the store afterwards.
\<close>

datatype error =
  DuplicateEmail | InvalidEmailFormat | InvalidPasswordFormat | CapacityExceeded | SubjectNotFound

definition change_student_password ::
  "student \<Rightarrow> string \<Rightarrow> store \<Rightarrow> (error + unit) \<times> student \<times> store" where
  "change_student_password student' new_password data =
     (if \<not> is_valid_password new_password then (Inl InvalidPasswordFormat, student', data)
      else
        let student'' = student'\<lparr>password := new_password\<rparr>
        in (Inr (), student'', dict_set (email student'') student'' data))"

text \<open>
  \<^verbatim>\<open>generate_student_id\<close> draws until the formatted number is no identifier of the store.
  The list holds the draws; \<open>None\<close> says that the loop is still running when they are used
  up. On success the model returns the identifier and the draws that remain.
\<close>

fun generate_student_id :: "store \<Rightarrow> nat list \<Rightarrow> (string \<times> nat list) option" where
  "generate_student_id data [] = None"
| "generate_student_id data (r # rnd) =
     (if zero_pad 6 r \<notin> set (map (\<lambda>(email', student'). student_id student') data)
      then Some (zero_pad 6 r, rnd)
      else generate_student_id data rnd)"

text \<open>
  \<^verbatim>\<open>register_student\<close>: after the loop, \<^verbatim>\<open>Student(name, email, password)\<close> draws one more
  number for an identifier that the next statement overwrites.
\<close>

definition register_student ::
  "store \<Rightarrow> string \<Rightarrow> string \<Rightarrow> string \<Rightarrow> nat list \<Rightarrow> ((error + student) \<times> store) option" where
  "register_student data name' email' password' rnd =
     (if dict_contains email' data then Some (Inl DuplicateEmail, data)
      else case generate_student_id data rnd of
        None \<Rightarrow> None
      | Some (new_id, rnd') \<Rightarrow>
          (case rnd' of
             [] \<Rightarrow> None
           | r # _ \<Rightarrow>
               let student' = (Student_init name' email' password' r)\<lparr>student_id := new_id\<rparr>
               in Some (Inr student', dict_set email' student' data)))"

text \<open>
  The registration form of the graphical front end (\<^verbatim>\<open>submit_registration\<close>): both formats
  are checked before \<^verbatim>\<open>register_student\<close> is called. The text menu does the same checks, asking
  again until both formats are valid.
\<close>

definition submit_registration ::
  "store \<Rightarrow> string \<Rightarrow> string \<Rightarrow> string \<Rightarrow> nat list \<Rightarrow> ((error + student) \<times> store) option" where
  "submit_registration data name' email' password' rnd =
     (if \<not> is_valid_email email' then Some (Inl InvalidEmailFormat, data)
      else if \<not> is_valid_password password' then Some (Inl InvalidPasswordFormat, data)
      else register_student data name' email' password' rnd)"

section \<open>Subject controller\<close>

definition enroll_subject ::
  "student \<Rightarrow> store \<Rightarrow> (nat \<times> nat) list \<Rightarrow> ((error + unit) \<times> student \<times> store) option" where
  "enroll_subject student' data rnd =
     (case Student_enroll_subject student' rnd of
        None \<Rightarrow> None
      | Some (None, student'') \<Rightarrow> Some (Inl CapacityExceeded, student'', data)
      | Some (Some subject_info, student'') \<Rightarrow>
          Some (Inr (), student'', dict_set (email student'') student'' data))"

definition remove_subject ::
  "student \<Rightarrow> string \<Rightarrow> store \<Rightarrow> (error + unit) \<times> student \<times> store" where
  "remove_subject student' subject_id data =
     (if \<not> list_ex (\<lambda>subj. subj_id subj = subject_id) (subjects student')
      then (Inl SubjectNotFound, student', data)
      else
        let student'' = drop_subject student' subject_id
        in (Inr (), student'', dict_set (email student'') student'' data))"

section \<open>Admin controller\<close>

text \<open>
  \<^verbatim>\<open>groups[grade].append(...)\<close>: appends to the list stored under a key of the dictionary,
  and raises \<^verbatim>\<open>KeyError\<close> for a key that is not there.
\<close>

fun dict_append :: "'k \<Rightarrow> 'v \<Rightarrow> ('k \<times> 'v list) list \<Rightarrow> exception + ('k \<times> 'v list) list" where
  "dict_append k x [] = Inl KeyError"
| "dict_append k x ((k', vs) # kvs) =
     (if k' = k then Inr ((k', vs @ [x]) # kvs)
      else case dict_append k x kvs of
        Inl e \<Rightarrow> Inl e
      | Inr kvs' \<Rightarrow> Inr ((k', vs) # kvs'))"

type_synonym graded = "string \<times> string \<times> string \<times> rat"

fun group_loop ::
  "store \<Rightarrow> (string \<times> graded list) list \<Rightarrow> exception + (string \<times> graded list) list" where
  "group_loop [] groups = Inr groups"
| "group_loop ((email', student') # items) groups =
     (case calculate_average_mark student' of
        Inl e \<Rightarrow> Inl e
      | Inr avg_mark \<Rightarrow>
          let grade' = assign_grade avg_mark
          in case dict_append grade' (name student', student_id student', grade', avg_mark) groups of
               Inl e \<Rightarrow> Inl e
             | Inr groups' \<Rightarrow> group_loop items groups')"

text \<open>
  \<^verbatim>\<open>group_students_by_grade\<close> and \<^verbatim>\<open>partition_students_pass_fail\<close> print what they have
  computed; the model returns it, or the exception that ended the loop.
\<close>

definition group_students_by_grade ::
  "store \<Rightarrow> exception + (string \<times> graded list) list" where
  "group_students_by_grade data =
     group_loop data [(''HD'', []), (''D'', []), (''C'', []), (''P'', []), (''Z'', [])]"

type_synonym marked = "string \<times> string \<times> rat"

fun partition_loop ::
  "store \<Rightarrow> marked list \<Rightarrow> marked list \<Rightarrow> exception + marked list \<times> marked list" where
  "partition_loop [] passed failed = Inr (passed, failed)"
| "partition_loop ((email', student') # items) passed failed =
     (case calculate_average_mark student' of
        Inl e \<Rightarrow> Inl e
      | Inr avg_mark \<Rightarrow>
          (case is_passing student' of
             Inl e \<Rightarrow> Inl e
           | Inr True \<Rightarrow>
               partition_loop items (passed @ [(name student', student_id student', avg_mark)])
                 failed
           | Inr False \<Rightarrow>
               partition_loop items passed
                 (failed @ [(name student', student_id student', avg_mark)])))"

definition partition_students_pass_fail :: "store \<Rightarrow> exception + marked list \<times> marked list" where
  "partition_students_pass_fail data = partition_loop data [] []"

definition remove_student :: "store \<Rightarrow> string \<Rightarrow> bool \<times> store" where
  "remove_student data student_id' =
     (let to_remove =
            map fst (filter (\<lambda>(email', student'). student_id student' = student_id') data)
      in case to_remove of
           [] \<Rightarrow> (False, data)
         | first # _ \<Rightarrow> (True, dict_del first data))"

definition clear_all_student_data :: "store \<Rightarrow> store" where
  "clear_all_student_data data = clear_data data"

section \<open>The menus\<close>

text \<open>
  The text menus of \<^verbatim>\<open>UniversitySystem\<close> are the callers of the controllers. The student
  menu logs a student in (\<^verbatim>\<open>login_student\<close>, then \<^verbatim>\<open>subject_menu\<close> with the student
  returned) or registers one (both formats checked, then \<^verbatim>\<open>register_student\<close>, as
  \<open>submit_registration\<close> does); the subject menu changes the password of, enrols and drops
  subjects for the student it was entered with, until it is left; the admin menu removes a
  student by identifier or clears the store. A command is one menu choice with the strings
  typed in and the random numbers drawn while it runs. The state is the store and the student
  object that the subject menu holds. The model accepts every command in every state, which
  is more than one run of the menus allows; a choice of the subject menu without a student
  does nothing.
\<close>

datatype command =
  Register string string string "nat list"
| Login string string
| ChangePassword string
| Enroll "(nat \<times> nat) list"
| Drop string
| Logout
| RemoveStudent string
| ClearAll

record system =
  db :: store
  logged_in :: "student option"

fun run_command :: "command \<Rightarrow> system \<Rightarrow> system option" where
  "run_command (Register name' email' password' rnd) s =
     (case submit_registration (db s) name' email' password' rnd of
        None \<Rightarrow> None
      | Some (outcome, data') \<Rightarrow> Some (s\<lparr>db := data'\<rparr>))"
| "run_command (Login email' password') s =
     (case login_student (db s) email' password' of
        Inl message \<Rightarrow> Some s
      | Inr student' \<Rightarrow> Some (s\<lparr>logged_in := Some student'\<rparr>))"
| "run_command (ChangePassword new_password) s =
     (case logged_in s of
        None \<Rightarrow> Some s
      | Some student' \<Rightarrow>
          (case change_student_password student' new_password (db s) of
             (outcome, student'', data') \<Rightarrow> Some \<lparr>db = data', logged_in = Some student''\<rparr>))"
| "run_command (Enroll rnd) s =
     (case logged_in s of
        None \<Rightarrow> Some s
      | Some student' \<Rightarrow>
          (case enroll_subject student' (db s) rnd of
             None \<Rightarrow> None
           | Some (outcome, student'', data') \<Rightarrow> Some \<lparr>db = data', logged_in = Some student''\<rparr>))"
| "run_command (Drop subject_id) s =
     (case logged_in s of
        None \<Rightarrow> Some s
      | Some student' \<Rightarrow>
          (case remove_subject student' subject_id (db s) of
             (outcome, student'', data') \<Rightarrow> Some \<lparr>db = data', logged_in = Some student''\<rparr>))"
| "run_command Logout s = Some (s\<lparr>logged_in := None\<rparr>)"
| "run_command (RemoveStudent student_id') s = Some (s\<lparr>db := snd (remove_student (db s) student_id')\<rparr>)"
| "run_command ClearAll s = Some (s\<lparr>db := clear_all_student_data (db s)\<rparr>)"

fun run_commands :: "command list \<Rightarrow> system \<Rightarrow> system option" where
  "run_commands [] s = Some s"
| "run_commands (c # cs) s =
     (case run_command c s of None \<Rightarrow> None | Some s' \<Rightarrow> run_commands cs s')"

definition initial :: system where
  "initial = \<lparr>db = [], logged_in = None\<rparr>"

text \<open>The enrolment cap on every student of the store and on the student held by the menu.\<close>

definition within_capacity :: "system \<Rightarrow> bool" where
  "within_capacity s \<longleftrightarrow>
     list_all (\<lambda>(email', student'). length (subjects student') \<le> 4) (db s) \<and>
     (case logged_in s of None \<Rightarrow> True | Some student' \<Rightarrow> length (subjects student') \<le> 4)"

section \<open>Example records\<close>

text \<open>Concrete records on which the properties below are evaluated.\<close>

definition john :: student where
  "john = \<lparr>student_id = ''000007'', name = ''John'', email = ''john.smith@university.com'',
     password = ''Abcde123'', subjects = []\<rparr>"

definition john4 :: student where
  "john4 = john\<lparr>subjects :=
     [\<lparr>subj_id = ''001'', mark = 40, grade = ''Z''\<rparr>,
      \<lparr>subj_id = ''002'', mark = 60, grade = ''P''\<rparr>,
      \<lparr>subj_id = ''003'', mark = 70, grade = ''C''\<rparr>,
      \<lparr>subj_id = ''004'', mark = 80, grade = ''D''\<rparr>]\<rparr>"

text \<open>
  John registers, logs in and enrols five times; the second enrolment first draws an
  identifier that is already taken.
\<close>

definition john_session :: "command list" where
  "john_session =
     [Register ''John'' ''john.smith@university.com'' ''Abcde123'' [7, 9],
      Login ''john.smith@university.com'' ''Abcde123'',
      Enroll [(1, 40)], Enroll [(1, 50), (2, 60)], Enroll [(3, 70)], Enroll [(4, 80)],
      Enroll [(5, 90)]]"

definition jane :: student where
  "jane = \<lparr>student_id = ''000042'', name = ''Jane'', email = ''jane.doe@university.com'',
     password = ''Qwert456'', subjects = []\<rparr>"

definition john2 :: student where
  "john2 = john\<lparr>subjects :=
     [\<lparr>subj_id = ''001'', mark = 40, grade = ''Z''\<rparr>,
      \<lparr>subj_id = ''002'', mark = 60, grade = ''P''\<rparr>]\<rparr>"

text \<open>A student whose average, 241 / 3, is not a double.\<close>

definition carol :: student where
  "carol = \<lparr>student_id = ''000100'', name = ''Carol'', email = ''carol.jones@university.com'',
     password = ''Zxcvb789'',
     subjects =
       [\<lparr>subj_id = ''010'', mark = 80, grade = ''D''\<rparr>,
        \<lparr>subj_id = ''020'', mark = 80, grade = ''D''\<rparr>,
        \<lparr>subj_id = ''030'', mark = 81, grade = ''D''\<rparr>]\<rparr>"

section \<open>Properties of the grade policy\<close>

text \<open>
  C4. For every numeric mark, whole or fractional, \<open>assign_grade\<close> returns Z below 50,
  P from 50 up to but excluding 65, C from 65 up to but excluding 75, D from 75 up to but
  excluding 85 and HD from 85 on; the eight boundary marks 49.9, 50, 64.9, 65, 74.9, 75, 84.9 and 85 are
  graded Z, P, P, C, C, D, D and HD.
\<close>

theorem assign_grade_thresholds:
  "(m < 50 \<longrightarrow> assign_grade m = ''Z'') \<and>
   (50 \<le> m \<and> m < 65 \<longrightarrow> assign_grade m = ''P'') \<and>
   (65 \<le> m \<and> m < 75 \<longrightarrow> assign_grade m = ''C'') \<and>
   (75 \<le> m \<and> m < 85 \<longrightarrow> assign_grade m = ''D'') \<and>
   (85 \<le> m \<longrightarrow> assign_grade m = ''HD'') \<and>
   assign_grade (499 / 10) = ''Z'' \<and> assign_grade 50 = ''P'' \<and>
   assign_grade (649 / 10) = ''P'' \<and> assign_grade 65 = ''C'' \<and>
   assign_grade (749 / 10) = ''C'' \<and> assign_grade 75 = ''D'' \<and>
   assign_grade (849 / 10) = ''D'' \<and> assign_grade 85 = ''HD''"
  by (simp add: assign_grade_def)

theorem assign_grade_thresholds_witness:
  "assign_grade 30 = ''Z'' \<and> assign_grade (115 / 2) = ''P'' \<and> assign_grade 70 = ''C'' \<and>
   assign_grade (241 / 3) = ''D'' \<and> assign_grade 100 = ''HD''"
  using assign_grade_thresholds [of 30] assign_grade_thresholds [of "115 / 2"]
    assign_grade_thresholds [of 70] assign_grade_thresholds [of "241 / 3"]
    assign_grade_thresholds [of 100]
  by simp

section \<open>Properties of the credential validator\<close>

text \<open>What the pattern matcher accepts, token by token.\<close>

lemma in_class_letters: "in_class letters c = is_letter c"
  by (simp add: letters_def is_letter_def)

lemma re_from_AtLeast:
  "re_from (AtLeast n k # ps) pos s \<longleftrightarrow>
     (\<exists>us vs. s = us @ vs \<and> n \<le> length us \<and> (\<forall>c\<in>set us. in_class k c) \<and>
        re_from ps (pos + length us) vs)"
proof (induction s arbitrary: n pos)
  case Nil
  then show ?case by (cases n) auto
next
  case (Cons x xs)
  show ?case
  proof (cases n)
    case 0
    show ?thesis
    proof
      assume "re_from (AtLeast n k # ps) pos (x # xs)"
      then consider "in_class k x" "re_from (AtLeast 0 k # ps) (Suc pos) xs"
        | "re_from ps pos (x # xs)"
        using 0 by auto
      then show "\<exists>us vs. x # xs = us @ vs \<and> n \<le> length us \<and> (\<forall>c\<in>set us. in_class k c) \<and>
          re_from ps (pos + length us) vs"
      proof cases
        case 1
        from 1(2) obtain us vs where "xs = us @ vs" "\<forall>c\<in>set us. in_class k c"
          "re_from ps (Suc pos + length us) vs"
          using Cons.IH [of 0 "Suc pos"] by auto
        with 1(1) 0 show ?thesis
          by (intro exI [of _ "x # us"] exI [of _ vs]) simp
      next
        case 2
        with 0 show ?thesis
          by (intro exI [of _ "[]"] exI [of _ "x # xs"]) simp
      qed
    next
      assume "\<exists>us vs. x # xs = us @ vs \<and> n \<le> length us \<and> (\<forall>c\<in>set us. in_class k c) \<and>
          re_from ps (pos + length us) vs"
      then obtain us vs where *: "x # xs = us @ vs" "\<forall>c\<in>set us. in_class k c"
        "re_from ps (pos + length us) vs"
        by blast
      show "re_from (AtLeast n k # ps) pos (x # xs)"
      proof (cases us)
        case Nil
        with * have "re_from ps pos (x # xs)" by simp
        with 0 show ?thesis by simp
      next
        case (Cons u us')
        with * have "x = u" "xs = us' @ vs" "in_class k x" "\<forall>c\<in>set us'. in_class k c"
          "re_from ps (Suc pos + length us') vs"
          by auto
        then have "re_from (AtLeast 0 k # ps) (Suc pos) xs"
          using Cons.IH [of 0 "Suc pos"] by blast
        with \<open>in_class k x\<close> 0 show ?thesis by simp
      qed
    qed
  next
    case (Suc m)
    show ?thesis
    proof
      assume "re_from (AtLeast n k # ps) pos (x # xs)"
      then have "in_class k x" "re_from (AtLeast m k # ps) (Suc pos) xs"
        using Suc by auto
      then obtain us vs where "xs = us @ vs" "m \<le> length us" "\<forall>c\<in>set us. in_class k c"
        "re_from ps (Suc pos + length us) vs"
        using Cons.IH [of m "Suc pos"] by auto
      with \<open>in_class k x\<close> Suc
      show "\<exists>us vs. x # xs = us @ vs \<and> n \<le> length us \<and> (\<forall>c\<in>set us. in_class k c) \<and>
          re_from ps (pos + length us) vs"
        by (intro exI [of _ "x # us"] exI [of _ vs]) simp
    next
      assume "\<exists>us vs. x # xs = us @ vs \<and> n \<le> length us \<and> (\<forall>c\<in>set us. in_class k c) \<and>
          re_from ps (pos + length us) vs"
      then obtain us vs where *: "x # xs = us @ vs" "n \<le> length us" "\<forall>c\<in>set us. in_class k c"
        "re_from ps (pos + length us) vs"
        by blast
      from *(2) Suc obtain u us' where us: "us = u # us'" by (cases us) auto
      with * Suc have "x = u" "xs = us' @ vs" "in_class k x" "m \<le> length us'"
        "\<forall>c\<in>set us'. in_class k c" "re_from ps (Suc pos + length us') vs"
        by auto
      then have "re_from (AtLeast m k # ps) (Suc pos) xs"
        using Cons.IH [of m "Suc pos"] by blast
      with \<open>in_class k x\<close> Suc show "re_from (AtLeast n k # ps) pos (x # xs)" by simp
    qed
  qed
qed

lemma re_from_Lits:
  "re_from (map Lit w @ ps) pos s \<longleftrightarrow> (\<exists>vs. s = w @ vs \<and> re_from ps (pos + length w) vs)"
proof (induction w arbitrary: pos s)
  case Nil
  then show ?case by simp
next
  case (Cons c w)
  then show ?case by (cases s) auto
qed

lemma re_from_Lit:
  "re_from (Lit c # ps) pos s \<longleftrightarrow> (\<exists>vs. s = c # vs \<and> re_from ps (Suc pos) vs)"
  by (cases s) auto

lemma re_from_One:
  "re_from (One k # ps) pos s \<longleftrightarrow> (\<exists>x vs. s = x # vs \<and> in_class k x \<and> re_from ps (Suc pos) vs)"
  by (cases s) auto


lemma is_valid_email_iff:
  "is_valid_email s \<longleftrightarrow> spec_valid_email s \<or> (\<exists>t. s = t @ [CHR 0x0A] \<and> spec_valid_email t)"
proof -
  have tail: "re_from (map Lit ''@university'' @ Lit CHR ''.'' # map Lit ''com'' @ [Eol]) pos s \<longleftrightarrow>
      s = ''@university.com'' \<or> s = ''@university.com'' @ [CHR 0x0A]" for pos s
    unfolding re_from_Lits re_from_Lit by auto
  have unf: "is_valid_email s \<longleftrightarrow>
      (\<exists>a vs. s = a @ vs \<and> 1 \<le> length a \<and> (\<forall>c\<in>set a. is_letter c) \<and>
        (\<exists>vs'. vs = CHR ''.'' # vs' \<and>
          (\<exists>b r. vs' = b @ r \<and> 1 \<le> length b \<and> (\<forall>c\<in>set b. is_letter c) \<and>
             (r = ''@university.com'' \<or> r = ''@university.com'' @ [CHR 0x0A]))))"
    unfolding is_valid_email_def re_match_def email_pattern_def re_from.simps(2)
      re_from_AtLeast re_from_Lit tail in_class_letters
    by simp
  show ?thesis
  proof
    assume "is_valid_email s"
    then obtain a b r where s: "s = a @ CHR ''.'' # b @ r" and ab: "a \<noteq> []" "b \<noteq> []"
      "\<forall>c\<in>set a. is_letter c" "\<forall>c\<in>set b. is_letter c"
      and r: "r = ''@university.com'' \<or> r = ''@university.com'' @ [CHR 0x0A]"
      unfolding unf by fastforce
    from ab have sp: "spec_valid_email (a @ ''.'' @ b @ ''@university.com'')"
      unfolding spec_valid_email_def list_all_iff by blast
    from r show "spec_valid_email s \<or> (\<exists>t. s = t @ [CHR 0x0A] \<and> spec_valid_email t)"
    proof
      assume "r = ''@university.com''"
      with s sp show ?thesis by simp
    next
      assume "r = ''@university.com'' @ [CHR 0x0A]"
      with s have "s = (a @ ''.'' @ b @ ''@university.com'') @ [CHR 0x0A]" by simp
      with sp show ?thesis by blast
    qed
  next
    assume "spec_valid_email s \<or> (\<exists>t. s = t @ [CHR 0x0A] \<and> spec_valid_email t)"
    then obtain a b r where s: "s = a @ CHR ''.'' # b @ r" and ab: "a \<noteq> []" "b \<noteq> []"
      "\<forall>c\<in>set a. is_letter c" "\<forall>c\<in>set b. is_letter c"
      and r: "r = ''@university.com'' \<or> r = ''@university.com'' @ [CHR 0x0A]"
      unfolding spec_valid_email_def list_all_iff by fastforce
    from ab have "1 \<le> length a" "1 \<le> length b" by (simp_all add: Suc_le_eq)
    with s ab r show "is_valid_email s"
      unfolding unf by blast
  qed
qed

lemma is_valid_password_iff:
  "is_valid_password s \<longleftrightarrow>
     spec_valid_password s \<or> (\<exists>t. s = t @ [CHR 0x0A] \<and> spec_valid_password t)"
proof -
  have unf: "is_valid_password s \<longleftrightarrow>
      (\<exists>u vs. s = u # vs \<and> (CHR ''A'' \<le> u \<and> u \<le> CHR ''Z'') \<and>
        (\<exists>ls vs'. vs = ls @ vs' \<and> 4 \<le> length ls \<and> (\<forall>c\<in>set ls. is_letter c) \<and>
          (\<exists>ds r. vs' = ds @ r \<and> 3 \<le> length ds \<and>
             (\<forall>c\<in>set ds. CHR ''0'' \<le> c \<and> c \<le> CHR ''9'') \<and> (r = [] \<or> r = [CHR 0x0A]))))"
    unfolding is_valid_password_def re_match_def password_pattern_def re_from.simps(2)
      re_from_AtLeast re_from_One in_class_letters
    by simp
  show ?thesis
  proof
    assume "is_valid_password s"
    then obtain u vs ls vs' ds r where "s = u # vs" "vs = ls @ vs'" "vs' = ds @ r"
      and p: "CHR ''A'' \<le> u" "u \<le> CHR ''Z''"
      "4 \<le> length ls" "\<forall>c\<in>set ls. is_letter c" "3 \<le> length ds"
      "\<forall>c\<in>set ds. CHR ''0'' \<le> c \<and> c \<le> CHR ''9''"
      and r: "r = [] \<or> r = [CHR 0x0A]"
      unfolding unf by blast
    then have s: "s = u # ls @ ds @ r" by simp
    from p have sp: "spec_valid_password (u # ls @ ds)"
      unfolding spec_valid_password_def list_all_iff is_digit_def by blast
    from r show "spec_valid_password s \<or> (\<exists>t. s = t @ [CHR 0x0A] \<and> spec_valid_password t)"
    proof
      assume "r = []"
      with s sp show ?thesis by simp
    next
      assume "r = [CHR 0x0A]"
      with s have "s = (u # ls @ ds) @ [CHR 0x0A]" by simp
      with sp show ?thesis by blast
    qed
  next
    assume "spec_valid_password s \<or> (\<exists>t. s = t @ [CHR 0x0A] \<and> spec_valid_password t)"
    then obtain t r where t: "s = t @ r" "spec_valid_password t" and r: "r = [] \<or> r = [CHR 0x0A]"
      by (metis append_Nil2)
    from t(2) obtain u ls ds where "t = u # ls @ ds" and p: "CHR ''A'' \<le> u" "u \<le> CHR ''Z''"
      "4 \<le> length ls" "\<forall>c\<in>set ls. is_letter c" "3 \<le> length ds"
      "\<forall>c\<in>set ds. CHR ''0'' \<le> c \<and> c \<le> CHR ''9''"
      unfolding spec_valid_password_def list_all_iff is_digit_def by blast
    with t have s: "s = u # (ls @ (ds @ r))" by simp
    have "\<exists>ds' r'. ds @ r = ds' @ r' \<and> 3 \<le> length ds' \<and>
        (\<forall>c\<in>set ds'. CHR ''0'' \<le> c \<and> c \<le> CHR ''9'') \<and> (r' = [] \<or> r' = [CHR 0x0A])"
      using p r by blast
    then have "\<exists>ls' vs'. ls @ (ds @ r) = ls' @ vs' \<and> 4 \<le> length ls' \<and> (\<forall>c\<in>set ls'. is_letter c) \<and>
        (\<exists>ds' r'. vs' = ds' @ r' \<and> 3 \<le> length ds' \<and>
           (\<forall>c\<in>set ds'. CHR ''0'' \<le> c \<and> c \<le> CHR ''9'') \<and> (r' = [] \<or> r' = [CHR 0x0A]))"
      using p by blast
    with s p show "is_valid_password s"
      unfolding unf by blast
  qed
qed

text \<open>
  On a string that does not end in a line feed, in particular on every line read from the
  terminal, the validators accept exactly what the specification describes.
\<close>

lemma spec_valid_email_last: "spec_valid_email s \<Longrightarrow> last s = CHR ''m''"
  by (auto simp: spec_valid_email_def)

lemma spec_valid_password_last:
  assumes "spec_valid_password s"
  shows "is_digit (last s)"
proof -
  from assms obtain u ls ds where *: "3 \<le> length ds" "list_all is_digit ds" "s = u # ls @ ds"
    unfolding spec_valid_password_def by blast
  then have "ds \<noteq> []" by auto
  with * have "last s = last ds" "last ds \<in> set ds" by simp_all
  with * show ?thesis by (simp add: list_all_iff)
qed

lemma is_valid_email_no_line_feed:
  "s = [] \<or> last s \<noteq> CHR 0x0A \<Longrightarrow> is_valid_email s = spec_valid_email s"
  by (auto simp: is_valid_email_iff)

lemma is_valid_password_no_line_feed:
  "s = [] \<or> last s \<noteq> CHR 0x0A \<Longrightarrow> is_valid_password s = spec_valid_password s"
  by (auto simp: is_valid_password_iff)

lemma is_valid_email_examples:
  "is_valid_email ''john.smith@university.com''"
  "\<not> is_valid_email ''johnsmith@university.com''"
  "\<not> is_valid_email ''john.smith@other.com''"
  "\<not> is_valid_email ''John.Smith123@university.com''"
  by code_simp+

lemma is_valid_password_examples:
  "is_valid_password ''Abcde123''"
  "\<not> is_valid_password ''abcde123''"
  "\<not> is_valid_password ''Abc123''"
  "\<not> is_valid_password ''Abcdefg12''"
  by code_simp+

text \<open>
  C5. \<open>is_valid_email\<close> is meant to accept a string exactly when it is two alphabetic tokens
  separated by a dot, followed by \<^verbatim>\<open>@university.com\<close>, and nothing else. The code accepts
  the valid address \<^verbatim>\<open>john.smith@university.com\<close> followed by a line feed, which the
  description rejects: the anchor \<^verbatim>\<open>$\<close> also matches before a final line feed.
\<close>

theorem is_valid_email_trailing_line_feed:
  "is_valid_email (''john.smith@university.com'' @ [CHR 0x0A]) \<and>
   \<not> spec_valid_email (''john.smith@university.com'' @ [CHR 0x0A])"
proof
  show "is_valid_email (''john.smith@university.com'' @ [CHR 0x0A])"
    by code_simp
  show "\<not> spec_valid_email (''john.smith@university.com'' @ [CHR 0x0A])"
    using spec_valid_email_last [of "''john.smith@university.com'' @ [CHR 0x0A]"] by auto
qed

text \<open>
  C6. \<open>is_valid_password\<close> is meant to accept a string exactly when it is one uppercase
  letter, four or more further letters and three or more digits, and nothing else. The code
  accepts the valid password \<^verbatim>\<open>Abcde123\<close> followed by a line feed, which the description
  rejects, for the same reason as in C5.
\<close>

theorem is_valid_password_trailing_line_feed:
  "is_valid_password (''Abcde123'' @ [CHR 0x0A]) \<and>
   \<not> spec_valid_password (''Abcde123'' @ [CHR 0x0A])"
proof
  show "is_valid_password (''Abcde123'' @ [CHR 0x0A])"
    by code_simp
  show "\<not> spec_valid_password (''Abcde123'' @ [CHR 0x0A])"
    using spec_valid_password_last [of "''Abcde123'' @ [CHR 0x0A]"]
    by (auto simp: is_digit_def)
qed

section \<open>Properties of the record store\<close>

lemma dict_set_new: "k \<notin> fst ` set kvs \<Longrightarrow> dict_set k v kvs = kvs @ [(k, v)]"
  by (induction kvs) auto

lemma map_of_dict_set: "map_of (dict_set k v kvs) = (map_of kvs)(k \<mapsto> v)"
  by (induction kvs) auto

lemma map_fst_dict_set:
  "map fst (dict_set k v kvs) =
     (if k \<in> set (map fst kvs) then map fst kvs else map fst kvs @ [k])"
  by (induction kvs) (force simp: image_iff)+

lemma keys_dict_set: "fst ` set (dict_set k v kvs) = insert k (fst ` set kvs)"
proof -
  have "set (map fst (dict_set k v kvs)) = insert k (set (map fst kvs))"
    unfolding map_fst_dict_set by auto
  then show ?thesis by simp
qed

lemma distinct_dict_set:
  "distinct (map fst kvs) \<Longrightarrow> distinct (map fst (dict_set k v kvs))"
  by (simp add: map_fst_dict_set)

lemma set_dict_set: "set (dict_set k v kvs) \<subseteq> insert (k, v) (set kvs)"
  by (induction kvs) (auto split: if_splits)

lemma set_dict_del: "set (dict_del k kvs) \<subseteq> set kvs"
  by (induction kvs) (auto split: if_splits)

lemma keys_dict_del: "fst ` set (dict_del k kvs) \<subseteq> fst ` set kvs"
  using set_dict_del [of k kvs] by blast

lemma distinct_dict_del:
  "distinct (map fst kvs) \<Longrightarrow> distinct (map fst (dict_del k kvs))"
proof (induction kvs)
  case Nil
  then show ?case by simp
next
  case (Cons kv kvs)
  then show ?case
    using keys_dict_del [of k kvs] by (cases kv) auto
qed

section \<open>Properties of registration\<close>

lemma generate_student_id_fresh:
  "generate_student_id data rnd = Some (new_id, rnd') \<Longrightarrow>
     new_id \<notin> student_id ` snd ` set data"
  by (induction rnd) (auto split: if_splits)

text \<open>The loop returns as soon as a draw is no identifier of the store.\<close>

lemma generate_student_id_returns:
  "list_ex (\<lambda>r. zero_pad 6 r \<notin> student_id ` snd ` set data) rnd \<Longrightarrow>
     \<exists>new_id rnd'. generate_student_id data rnd = Some (new_id, rnd')"
  by (induction rnd) (auto simp: image_iff)

lemma register_student_duplicate:
  "dict_contains email' data \<Longrightarrow>
     register_student data name' email' password' rnd = Some (Inl DuplicateEmail, data)"
  by (simp add: register_student_def)

lemma register_student_success:
  assumes "register_student data name' email' password' rnd = Some (Inr student', data')"
  shows "\<not> dict_contains email' data \<and> data' = data @ [(email', student')] \<and>
    name student' = name' \<and> email student' = email' \<and> password student' = password' \<and>
    subjects student' = [] \<and> student_id student' \<notin> student_id ` snd ` set data"
proof -
  from assms have new: "\<not> dict_contains email' data"
    by (auto simp: register_student_def split: if_splits)
  with assms obtain new_id rnd' r rnd'' where
    gen: "generate_student_id data rnd = Some (new_id, rnd')" and "rnd' = r # rnd''" and
    st: "student' = (Student_init name' email' password' r)\<lparr>student_id := new_id\<rparr>" and
    data': "data' = dict_set email' student' data"
    by (auto simp: register_student_def Let_def split: option.splits list.splits)
  from new data' have "data' = data @ [(email', student')]"
    by (simp add: dict_contains_def dict_set_new)
  moreover from gen have "new_id \<notin> student_id ` snd ` set data"
    by (rule generate_student_id_fresh)
  with st have "student_id student' \<notin> student_id ` snd ` set data"
    by simp
  ultimately show ?thesis
    using new st by (simp add: Student_init_def)
qed

lemma register_student_returns:
  assumes "\<not> dict_contains email' data"
    and "generate_student_id data rnd = Some (new_id, r # rnd')"
  shows "\<exists>student'. register_student data name' email' password' rnd =
    Some (Inr student', data @ [(email', student')])"
  using assms by (simp add: register_student_def dict_contains_def dict_set_new Let_def)

text \<open>The registration form rejects an invalid format before it looks at the store.\<close>

lemma submit_registration_invalid:
  "\<not> is_valid_email email' \<Longrightarrow>
     submit_registration data name' email' password' rnd = Some (Inl InvalidEmailFormat, data)"
  "is_valid_email email' \<Longrightarrow> \<not> is_valid_password password' \<Longrightarrow>
     submit_registration data name' email' password' rnd = Some (Inl InvalidPasswordFormat, data)"
  by (simp_all add: submit_registration_def)

text \<open>
  C1. \<open>register_student\<close> is said to fail when the validator rejects the email or the
  password. The function itself checks neither: with the invalid email \<^verbatim>\<open>not-an-email\<close> and
  the invalid password \<^verbatim>\<open>pw\<close> on the empty store (draws 7 for the identifier loop and 9 for
  the constructor) it stores and returns a new student. The other parts of the claim hold:
  \<open>register_student_duplicate\<close>, \<open>register_student_success\<close>.
\<close>

theorem register_student_invalid_format:
  "\<not> is_valid_email ''not-an-email'' \<and> \<not> is_valid_password ''pw'' \<and>
   register_student [] ''Bob'' ''not-an-email'' ''pw'' [7, 9] =
     Some (Inr \<lparr>student_id = ''000007'', name = ''Bob'', email = ''not-an-email'',
                 password = ''pw'', subjects = []\<rparr>,
           [(''not-an-email'',
             \<lparr>student_id = ''000007'', name = ''Bob'', email = ''not-an-email'',
              password = ''pw'', subjects = []\<rparr>)])"
  by code_simp

section \<open>Properties of authentication\<close>

lemma messages_differ: "does_not_exist_message \<noteq> incorrect_format_message"
  by (simp add: does_not_exist_message_def incorrect_format_message_def)

text \<open>
  C2 as the code has it. \<open>login_student\<close> returns the format message when either field fails
  validation, whatever the store holds; with both formats valid it returns the other message
  when the email keys no record, the stored student when the stored password equals the
  supplied one, and otherwise the format message again: a wrong password is not reported by
  a value of its own.
\<close>

theorem login_student_outcomes:
  "(\<not> is_valid_email email' \<or> \<not> is_valid_password password' \<longrightarrow>
      login_student data email' password' = Inl incorrect_format_message) \<and>
   (is_valid_email email' \<and> is_valid_password password' \<and> map_of data email' = None \<longrightarrow>
      login_student data email' password' = Inl does_not_exist_message) \<and>
   (is_valid_email email' \<and> is_valid_password password' \<and> map_of data email' = Some stored \<and>
    password stored \<noteq> password' \<longrightarrow>
      login_student data email' password' = Inl incorrect_format_message) \<and>
   (is_valid_email email' \<and> is_valid_password password' \<and> map_of data email' = Some stored \<and>
    password stored = password' \<longrightarrow>
      login_student data email' password' = Inr stored) \<and>
   does_not_exist_message \<noteq> incorrect_format_message"
  by (simp add: login_student_def messages_differ)

theorem login_student_outcomes_witness:
  "login_student [(''john.smith@university.com'', john)] ''john'' ''Abcde123'' =
     Inl incorrect_format_message \<and>
   login_student [] ''john.smith@university.com'' ''Abcde123'' = Inl does_not_exist_message \<and>
   login_student [(''john.smith@university.com'', john)] ''john.smith@university.com''
     ''ABCDE123'' = Inl incorrect_format_message \<and>
   login_student [(''john.smith@university.com'', john)] ''john.smith@university.com''
     ''Abcde123'' = Inr john"
proof -
  have v: "is_valid_email ''john.smith@university.com''" "is_valid_password ''Abcde123''"
    "is_valid_password ''ABCDE123''" "\<not> is_valid_email ''john''"
    by code_simp+
  have m: "map_of [(''john.smith@university.com'', john)] ''john.smith@university.com'' = Some john"
    "map_of ([] :: store) ''john.smith@university.com'' = None"
    "password john = ''Abcde123''" "password john \<noteq> ''ABCDE123''"
    by (simp_all add: john_def)
  show ?thesis
    using v m
      login_student_outcomes [of "''john''" "''Abcde123''"
        "[(''john.smith@university.com'', john)]" john]
      login_student_outcomes [of "''john.smith@university.com''" "''Abcde123''" "[]" john]
      login_student_outcomes [of "''john.smith@university.com''" "''ABCDE123''"
        "[(''john.smith@university.com'', john)]" john]
      login_student_outcomes [of "''john.smith@university.com''" "''Abcde123''"
        "[(''john.smith@university.com'', john)]" john]
    by simp
qed

text \<open>
  The claim as stated fails: for a registered student and a well-formed but wrong password
  the result is the very value returned for a malformed email.
\<close>

theorem login_student_wrong_password_counterexample:
  "is_valid_email ''john.smith@university.com'' \<and> is_valid_password ''ABCDE123'' \<and>
   password john \<noteq> ''ABCDE123'' \<and> \<not> is_valid_email ''john'' \<and>
   login_student [(''john.smith@university.com'', john)] ''john.smith@university.com''
     ''ABCDE123'' =
   login_student [(''john.smith@university.com'', john)] ''john'' ''ABCDE123''"
  by code_simp

section \<open>Properties of enrolment\<close>

lemma unique_subject_fresh:
  "unique_subject ids new_subject rnd = Some s \<Longrightarrow> subj_id s \<notin> set ids"
  by (induction rnd arbitrary: new_subject) (auto split: if_splits)

text \<open>The retry loop returns as soon as a drawn identifier is not enrolled yet.\<close>

lemma unique_subject_returns:
  "subj_id new_subject \<notin> set ids \<or> list_ex (\<lambda>r. subj_id (Subject_init r) \<notin> set ids) rnd \<Longrightarrow>
     \<exists>s. unique_subject ids new_subject rnd = Some s"
  by (induction rnd arbitrary: new_subject) auto

lemma Student_enroll_subject_full:
  "4 \<le> length (subjects self) \<Longrightarrow> Student_enroll_subject self rnd = Some (None, self)"
  by (simp add: Student_enroll_subject_def)

lemma Student_enroll_subject_returns:
  assumes "length (subjects self) < 4"
    and "list_ex (\<lambda>r. subj_id (Subject_init r) \<notin> set (map subj_id (subjects self))) rnd"
  shows "\<exists>s. Student_enroll_subject self rnd =
      Some (Some s, self\<lparr>subjects := subjects self @ [s]\<rparr>) \<and>
    subj_id s \<notin> set (map subj_id (subjects self))"
proof -
  from assms(2) obtain r rnd' where rnd: "rnd = r # rnd'"
    by (cases rnd) auto
  with assms(2) obtain s where
    s: "unique_subject (map subj_id (subjects self)) (Subject_init r) rnd' = Some s"
    using unique_subject_returns [of "Subject_init r" "map subj_id (subjects self)" rnd']
    by auto
  then have "subj_id s \<notin> set (map subj_id (subjects self))"
    by (rule unique_subject_fresh)
  with assms(1) rnd s show ?thesis
    by (simp add: Student_enroll_subject_def)
qed

lemma Student_enroll_subject_result:
  assumes "Student_enroll_subject self rnd = Some (result, self')"
  shows "email self' = email self \<and>
    (length (subjects self) \<le> 4 \<longrightarrow> length (subjects self') \<le> 4)"
  using assms
  by (auto simp: Student_enroll_subject_def split: if_splits list.splits option.splits)

lemma enroll_subject_full:
  "4 \<le> length (subjects student') \<Longrightarrow>
     enroll_subject student' data rnd = Some (Inl CapacityExceeded, student', data)"
  by (simp add: enroll_subject_def Student_enroll_subject_full)

lemma enroll_subject_result:
  assumes "enroll_subject student' data rnd = Some (outcome, student'', data')"
  shows "(length (subjects student') \<le> 4 \<longrightarrow> length (subjects student'') \<le> 4) \<and>
    (data' = data \<or> data' = dict_set (email student'') student'' data)"
proof -
  from assms obtain result where
    "Student_enroll_subject student' rnd = Some (result, student'')"
    "data' = data \<or> data' = dict_set (email student'') student'' data"
    by (auto simp: enroll_subject_def split: option.splits)
  then show ?thesis
    using Student_enroll_subject_result by blast
qed

section \<open>The enrolment cap as an invariant\<close>

lemma list_all_dict_set:
  "list_all P kvs \<Longrightarrow> P (k, v) \<Longrightarrow> list_all P (dict_set k v kvs)"
  using set_dict_set [of k v kvs] by (auto simp: list_all_iff)

lemma list_all_dict_del: "list_all P kvs \<Longrightarrow> list_all P (dict_del k kvs)"
  using set_dict_del [of k kvs] by (auto simp: list_all_iff)

lemma login_student_stored:
  "login_student data email' password' = Inr student' \<Longrightarrow> (email', student') \<in> set data"
  by (auto simp: login_student_def split: if_splits option.splits dest: map_of_SomeD)

lemma submit_registration_result:
  assumes "submit_registration data name' email' password' rnd = Some (outcome, data')"
  shows "data' = data \<or> (\<exists>student'. subjects student' = [] \<and> data' = data @ [(email', student')])"
proof (cases outcome)
  case (Inl e)
  with assms show ?thesis
    by (auto simp: submit_registration_def register_student_def Let_def
        split: if_splits option.splits list.splits)
next
  case (Inr student')
  with assms have "register_student data name' email' password' rnd = Some (Inr student', data')"
    by (auto simp: submit_registration_def split: if_splits)
  then show ?thesis
    using register_student_success by blast
qed

lemma remove_student_result:
  "snd (remove_student data student_id') = data \<or>
   (\<exists>k. snd (remove_student data student_id') = dict_del k data)"
  by (auto simp: remove_student_def Let_def split: list.splits)

lemma run_command_within_capacity:
  assumes "within_capacity s" and "run_command c s = Some s'"
  shows "within_capacity s'"
proof (cases c)
  case (Register name' email' password' rnd)
  with assms(2) obtain outcome data' where
    reg: "submit_registration (db s) name' email' password' rnd = Some (outcome, data')"
    and s': "s' = s\<lparr>db := data'\<rparr>"
    by (auto split: option.splits)
  from reg have "data' = db s \<or>
      (\<exists>student'. subjects student' = [] \<and> data' = db s @ [(email', student')])"
    by (rule submit_registration_result)
  with assms(1) s' show ?thesis
    by (auto simp: within_capacity_def)
next
  case (Login email' password')
  show ?thesis
  proof (cases "login_student (db s) email' password'")
    case (Inl message)
    with assms Login show ?thesis by simp
  next
    case (Inr student')
    then have "(email', student') \<in> set (db s)"
      by (rule login_student_stored)
    with assms(1) have "length (subjects student') \<le> 4"
      by (auto simp: within_capacity_def list_all_iff)
    with assms Login Inr show ?thesis
      by (auto simp: within_capacity_def)
  qed
next
  case (ChangePassword new_password)
  show ?thesis
  proof (cases "logged_in s")
    case None
    with assms ChangePassword show ?thesis by simp
  next
    case (Some student')
    with assms(1) have cap: "length (subjects student') \<le> 4"
      "list_all (\<lambda>(email', student'). length (subjects student') \<le> 4) (db s)"
      by (simp_all add: within_capacity_def)
    from assms(2) ChangePassword Some
    have "s' = s \<or> s' = \<lparr>db = dict_set (email student') (student'\<lparr>password := new_password\<rparr>) (db s),
        logged_in = Some (student'\<lparr>password := new_password\<rparr>)\<rparr>"
      by (auto simp: change_student_password_def Let_def split: if_splits)
    with assms(1) cap show ?thesis
      by (auto simp: within_capacity_def intro!: list_all_dict_set)
  qed
next
  case (Enroll rnd)
  show ?thesis
  proof (cases "logged_in s")
    case None
    with assms Enroll show ?thesis by simp
  next
    case (Some student')
    with assms(1) have cap: "length (subjects student') \<le> 4"
      "list_all (\<lambda>(email', student'). length (subjects student') \<le> 4) (db s)"
      by (simp_all add: within_capacity_def)
    from assms(2) Enroll Some obtain outcome student'' data' where
      e: "enroll_subject student' (db s) rnd = Some (outcome, student'', data')"
      and s': "s' = \<lparr>db = data', logged_in = Some student''\<rparr>"
      by (auto split: option.splits)
    from enroll_subject_result [OF e] cap
    have "length (subjects student'') \<le> 4"
      "data' = db s \<or> data' = dict_set (email student'') student'' (db s)"
      by simp_all
    with cap s' show ?thesis
      by (auto simp: within_capacity_def intro!: list_all_dict_set)
  qed
next
  case (Drop subject_id)
  show ?thesis
  proof (cases "logged_in s")
    case None
    with assms Drop show ?thesis by simp
  next
    case (Some student')
    with assms(1) have cap: "length (subjects student') \<le> 4"
      "list_all (\<lambda>(email', student'). length (subjects student') \<le> 4) (db s)"
      by (simp_all add: within_capacity_def)
    have "length (subjects (drop_subject student' subject_id)) \<le> length (subjects student')"
      by (simp add: drop_subject_def)
    with cap have d: "length (subjects (drop_subject student' subject_id)) \<le> 4"
      by simp
    from assms(2) Drop Some
    have "s' = s \<or> s' = \<lparr>db = dict_set (email (drop_subject student' subject_id))
          (drop_subject student' subject_id) (db s),
        logged_in = Some (drop_subject student' subject_id)\<rparr>"
      by (auto simp: remove_subject_def Let_def split: if_splits)
    with assms(1) cap d show ?thesis
      by (auto simp: within_capacity_def intro!: list_all_dict_set)
  qed
next
  case Logout
  with assms show ?thesis
    by (auto simp: within_capacity_def)
next
  case (RemoveStudent student_id')
  with assms remove_student_result [of "db s" student_id'] show ?thesis
    by (auto simp: within_capacity_def intro: list_all_dict_del)
next
  case ClearAll
  with assms show ?thesis
    by (auto simp: within_capacity_def clear_all_student_data_def clear_data_def)
qed

lemma run_commands_within_capacity:
  "within_capacity s \<Longrightarrow> run_commands cs s = Some s' \<Longrightarrow> within_capacity s'"
proof (induction cs arbitrary: s)
  case Nil
  then show ?case by simp
next
  case (Cons c cs)
  then show ?case
    by (auto split: option.splits dest: run_command_within_capacity)
qed

lemma within_capacity_initial: "within_capacity initial"
  by (simp add: within_capacity_def initial_def)

text \<open>
  C3. For a student with exactly four subjects \<open>enroll_subject\<close> reports that the capacity is
  exceeded and leaves the student and the store as they were. Consequently every command
  keeps the cap of four subjects on all students of the store and on the student in session,
  and so does every sequence of commands from the empty store.
\<close>

theorem enroll_subject_capacity:
  "(length (subjects student') = 4 \<longrightarrow>
      enroll_subject student' data rnd = Some (Inl CapacityExceeded, student', data)) \<and>
   (within_capacity s \<and> run_command c s = Some s' \<longrightarrow> within_capacity s') \<and>
   (run_commands cs initial = Some s'' \<longrightarrow> within_capacity s'')"
  using enroll_subject_full [of student' data rnd] run_command_within_capacity [of s c s']
    run_commands_within_capacity [OF within_capacity_initial, of cs s'']
  by simp

theorem enroll_subject_capacity_witness:
  "length (subjects john4) = 4 \<and>
   enroll_subject john4 [(''john.smith@university.com'', john4)] [(5, 90)] =
     Some (Inl CapacityExceeded, john4, [(''john.smith@university.com'', john4)]) \<and>
   within_capacity \<lparr>db = [(''john.smith@university.com'', john4)], logged_in = Some john4\<rparr> \<and>
   run_command (Enroll [(5, 90)])
       \<lparr>db = [(''john.smith@university.com'', john4)], logged_in = Some john4\<rparr> =
     Some \<lparr>db = [(''john.smith@university.com'', john4)], logged_in = Some john4\<rparr> \<and>
   run_commands john_session initial =
     Some \<lparr>db = [(''john.smith@university.com'', john4)], logged_in = Some john4\<rparr>"
proof -
  let ?s = "\<lparr>db = [(''john.smith@university.com'', john4)], logged_in = Some john4\<rparr>"
  have l: "length (subjects john4) = 4"
    by (simp add: john4_def)
  have w: "within_capacity ?s"
    by (simp add: within_capacity_def john4_def)
  have r: "run_commands john_session initial = Some ?s"
    by code_simp
  have e: "run_command (Enroll [(5, 90)]) ?s = Some ?s"
    by code_simp
  show ?thesis
    using l w r e
      enroll_subject_capacity [of john4 "[(''john.smith@university.com'', john4)]" "[(5, 90)]"
        ?s "Enroll [(5, 90)]" ?s john_session ?s]
    by simp
qed

section \<open>Operations on a student that the store no longer holds\<close>

text \<open>
  C10. For a student object whose email keys no record of the store, each mutating operation
  that succeeds on the object writes it into the store as a new record under its email:
  \<open>change_student_password\<close> with a valid new password, \<open>enroll_subject\<close> for a student
  below the cap (once a fresh identifier is drawn), and \<open>remove_subject\<close> of an enrolled
  subject. None of them checks that the store still holds the student.
\<close>

theorem absent_student_is_stored_again:
  assumes "\<not> dict_contains (email student') data"
  shows "(is_valid_password new_password \<longrightarrow>
      change_student_password student' new_password data =
        (Inr (), student'\<lparr>password := new_password\<rparr>,
         data @ [(email student', student'\<lparr>password := new_password\<rparr>)])) \<and>
    (length (subjects student') < 4 \<and>
     list_ex (\<lambda>r. subj_id (Subject_init r) \<notin> set (map subj_id (subjects student'))) rnd \<longrightarrow>
      (\<exists>subject_info. enroll_subject student' data rnd =
        Some (Inr (), student'\<lparr>subjects := subjects student' @ [subject_info]\<rparr>,
          data @ [(email student', student'\<lparr>subjects := subjects student' @ [subject_info]\<rparr>)]))) \<and>
    (list_ex (\<lambda>subj. subj_id subj = subject_id) (subjects student') \<longrightarrow>
      remove_subject student' subject_id data =
        (Inr (), drop_subject student' subject_id,
         data @ [(email student', drop_subject student' subject_id)]))"
proof -
  from assms have new: "email student' \<notin> fst ` set data"
    by (simp add: dict_contains_def)
  have change: "change_student_password student' new_password data =
      (Inr (), student'\<lparr>password := new_password\<rparr>,
       data @ [(email student', student'\<lparr>password := new_password\<rparr>)])"
    if "is_valid_password new_password"
    using that new by (simp add: change_student_password_def dict_set_new Let_def)
  have enroll: "\<exists>subject_info. enroll_subject student' data rnd =
      Some (Inr (), student'\<lparr>subjects := subjects student' @ [subject_info]\<rparr>,
        data @ [(email student', student'\<lparr>subjects := subjects student' @ [subject_info]\<rparr>)])"
    if "length (subjects student') < 4"
      and "list_ex (\<lambda>r. subj_id (Subject_init r) \<notin> set (map subj_id (subjects student'))) rnd"
  proof -
    from that obtain subject_info where "Student_enroll_subject student' rnd =
        Some (Some subject_info, student'\<lparr>subjects := subjects student' @ [subject_info]\<rparr>)"
      using Student_enroll_subject_returns [of student' rnd] by blast
    with new have "enroll_subject student' data rnd =
        Some (Inr (), student'\<lparr>subjects := subjects student' @ [subject_info]\<rparr>,
          data @ [(email student', student'\<lparr>subjects := subjects student' @ [subject_info]\<rparr>)])"
      by (simp add: enroll_subject_def dict_set_new)
    then show ?thesis by blast
  qed
  have drop: "remove_subject student' subject_id data =
      (Inr (), drop_subject student' subject_id,
       data @ [(email student', drop_subject student' subject_id)])"
    if "list_ex (\<lambda>subj. subj_id subj = subject_id) (subjects student')"
    using that new by (simp add: remove_subject_def drop_subject_def dict_set_new Let_def)
  from change enroll drop show ?thesis
    by blast
qed

text \<open>John, removed from the store by his identifier, comes back with each operation.\<close>

theorem absent_student_is_stored_again_witness:
  "remove_student [(''john.smith@university.com'', john2)] ''000007'' = (True, []) \<and>
   change_student_password john2 ''Zyxwv987'' [] =
     (Inr (), john2\<lparr>password := ''Zyxwv987''\<rparr>,
      [(''john.smith@university.com'', john2\<lparr>password := ''Zyxwv987''\<rparr>)]) \<and>
   (\<exists>subject_info. enroll_subject john2 [] [(1, 50), (3, 70)] =
     Some (Inr (), john2\<lparr>subjects := subjects john2 @ [subject_info]\<rparr>,
       [(''john.smith@university.com'', john2\<lparr>subjects := subjects john2 @ [subject_info]\<rparr>)])) \<and>
   remove_subject john2 ''001'' [] =
     (Inr (), drop_subject john2 ''001'', [(''john.smith@university.com'', drop_subject john2 ''001'')])"
proof -
  have a: "\<not> dict_contains (email john2) ([] :: store)"
    by (simp add: dict_contains_def)
  have e: "email john2 = ''john.smith@university.com''"
    by (simp add: john2_def john_def)
  have v: "is_valid_password ''Zyxwv987''"
    by code_simp
  have l: "length (subjects john2) < 4"
    by (simp add: john2_def)
  have f: "list_ex (\<lambda>r. subj_id (Subject_init r) \<notin> set (map subj_id (subjects john2)))
      [(1, 50), (3, 70)]"
    by code_simp
  have x: "list_ex (\<lambda>subj. subj_id subj = ''001'') (subjects john2)"
    by (simp add: john2_def)
  have r: "remove_student [(''john.smith@university.com'', john2)] ''000007'' = (True, [])"
    by code_simp
  show ?thesis
    using e v l f x r
      absent_student_is_stored_again [OF a, of "''Zyxwv987''" "[(1, 50), (3, 70)]" "''001''"]
    by simp
qed

section \<open>Properties of Python numbers\<close>

subsection \<open>Rounding to an integer, and the binade of a number\<close>

lemma round_half_even_ge: "of_int k \<le> y \<Longrightarrow> k \<le> round_half_even y"
proof -
  assume "of_int k \<le> y"
  then have "k \<le> \<lfloor>y\<rfloor>"
    by (simp add: le_floor_iff)
  then show ?thesis
    by (simp add: round_half_even_def Let_def)
qed

lemma round_half_even_le: "y \<le> of_int k \<Longrightarrow> round_half_even y \<le> k"
proof (cases "y = of_int k")
  case True
  then show ?thesis
    by (simp add: round_half_even_def)
next
  case False
  assume "y \<le> of_int k"
  with False have "y < of_int k"
    by simp
  then have "\<lfloor>y\<rfloor> < k"
    by (simp add: floor_less_iff)
  then show ?thesis
    by (simp add: round_half_even_def Let_def)
qed

lemma round_half_even_less:
  assumes "y < of_int k - 1 / 2"
  shows "round_half_even y < k"
proof -
  from assms have "y < of_int k"
    by simp
  then have f: "\<lfloor>y\<rfloor> < k"
    by (simp add: floor_less_iff)
  show ?thesis
  proof (cases "\<lfloor>y\<rfloor> + 1 < k")
    case True
    then show ?thesis
      by (simp add: round_half_even_def Let_def)
  next
    case False
    with f have "\<lfloor>y\<rfloor> = k - 1"
      by simp
    with assms have "y - of_int \<lfloor>y\<rfloor> < 1 / 2"
      by simp
    with f show ?thesis
      by (simp add: round_half_even_def Let_def)
  qed
qed

lemma round_half_even_of_int: "round_half_even (of_int k) = k"
  by (simp add: round_half_even_def)

lemma ilog2_bounds:
  assumes "0 < a"
  shows "2 powi ilog2 a \<le> a \<and> a < 2 powi (ilog2 a + 1)"
proof (cases "1 \<le> a")
  case True
  let ?k = "\<lfloor>a\<rfloor>"
  from True have k: "0 < ?k"
    by simp
  then have b: "1 \<le> bitlen ?k"
    by (simp add: bitlen_alt_def)
  from bitlen_bounds [OF k] have lo: "2 ^ nat (bitlen ?k - 1) \<le> ?k" and hi: "?k < 2 ^ nat (bitlen ?k)"
    by simp_all
  from lo have "(of_int (2 ^ nat (bitlen ?k - 1)) :: rat) \<le> of_int ?k"
    by (simp only: of_int_le_iff)
  also have "\<dots> \<le> a"
    by simp
  finally have l: "2 powi (bitlen ?k - 1) \<le> a"
    using b by (simp add: power_int_def)
  from hi have "?k + 1 \<le> 2 ^ nat (bitlen ?k)"
    by simp
  then have "(of_int (?k + 1) :: rat) \<le> of_int (2 ^ nat (bitlen ?k))"
    by (simp only: of_int_le_iff)
  moreover have "a < of_int (?k + 1)"
    using floor_correct [of a] by simp
  ultimately have "a < of_int (2 ^ nat (bitlen ?k))"
    by simp
  then have h: "a < 2 powi (bitlen ?k)"
    using b by (simp add: power_int_def)
  from True l h show ?thesis
    by (simp add: ilog2_def)
next
  case False
  define y where "y = 1 / a"
  define n where "n = nat \<lceil>y\<rceil>"
  define c where "c = ceillog2 n"
  from False assms have y: "1 < y" and a: "a = 1 / y"
    by (simp_all add: y_def)
  then have ny: "y \<le> of_nat n" and n2: "2 \<le> n"
    unfolding n_def by (simp_all add: of_nat_ceiling) linarith
  have "n \<le> 2 ^ c"
    unfolding c_def by (rule le_two_power_ceillog2)
  then have nc: "(of_nat n :: rat) \<le> 2 ^ c"
    by (metis of_nat_le_iff of_nat_numeral of_nat_power)
  from n2 \<open>n \<le> 2 ^ c\<close> have c1: "1 \<le> c"
    by (cases c) auto
  have "2 ^ c < 2 * n"
    unfolding c_def using n2 by (intro two_power_ceillog2_gt) simp
  with c1 have "2 ^ (c - 1) < n"
    by (cases c) auto
  then have "int (2 ^ (c - 1)) < \<lceil>y\<rceil>"
    unfolding n_def using y by linarith
  then have "of_int (int (2 ^ (c - 1))) < y"
    by (simp only: less_ceiling_iff)
  then have yc: "2 ^ (c - 1) < y"
    by simp
  from y have y0: "0 < y"
    by simp
  from ny nc have "y \<le> 2 ^ c"
    by (rule order_trans)
  with y0 have "1 / 2 ^ c \<le> 1 / y"
    by (simp add: field_simps)
  moreover have "(2::rat) powi (- int c) = 1 / 2 ^ c"
    by (simp add: power_int_minus inverse_eq_divide)
  ultimately have l: "2 powi (- int c) \<le> a"
    using a by simp
  from yc y0 have "1 / y < 1 / 2 ^ (c - 1)"
    by (simp add: field_simps)
  moreover have "(2::rat) powi (- int c + 1) = 1 / 2 ^ (c - 1)"
  proof -
    from c1 obtain c' where c': "c = Suc c'"
      by (cases c) auto
    then have "- int c + 1 = - int c'"
      by simp
    then show ?thesis
      using c' by (simp add: power_int_minus inverse_eq_divide)
  qed
  ultimately have h: "a < 2 powi (- int c + 1)"
    using a by simp
  from False l h show ?thesis
    by (simp add: ilog2_def y_def n_def c_def)
qed

subsection \<open>Rounding to a double\<close>

lemma two_powi_split: "(2::rat) powi e = 2 ^ 52 * 2 powi (e - 52)"
proof -
  have "(2::rat) powi e = 2 powi (52 + (e - 52))"
    by simp
  also have "\<dots> = 2 powi 52 * 2 powi (e - 52)"
    by (rule power_int_add) simp
  finally show ?thesis
    by simp
qed

lemma two_powi_split_next: "(2::rat) powi (e + 1) = 2 ^ 53 * 2 powi (e - 52)"
proof -
  have eq: "e + 1 = 53 + (e - 52)"
    by simp
  have "(2::rat) powi (53 + (e - 52)) = 2 powi 53 * 2 powi (e - 52)"
    by (rule power_int_add) simp
  then show ?thesis
    unfolding eq by simp
qed

lemma two_powi_half: "(2::rat) powi (e - 53) = 2 powi (e - 52) / 2"
proof -
  have "(2::rat) powi (e - 52) = 2 powi (1 + (e - 53))"
    by simp
  also have "\<dots> = 2 powi 1 * 2 powi (e - 53)"
    by (rule power_int_add) simp
  finally show ?thesis
    by simp
qed

lemma two_powi_less_cancel: "(2::rat) powi m < 2 powi n \<Longrightarrow> m < n"
  using power_int_increasing [of n m "2::rat"] by (cases "m < n") auto

lemma round_magnitude_scaled:
  "round_magnitude a =
     of_int (round_half_even (a / 2 powi (max (ilog2 a) (- 1022) - 52))) *
       2 powi (max (ilog2 a) (- 1022) - 52)"
  by (simp add: round_magnitude_def Let_def)

text \<open>In the binade of a positive number the rounding stays between the two powers of two.\<close>

lemma round_magnitude_below_next_power:
  assumes "0 < a"
  shows "round_magnitude a \<le> 2 powi (max (ilog2 a) (- 1022) + 1)"
proof -
  define e where "e = max (ilog2 a) (- 1022)"
  define u where "u = (2::rat) powi (e - 52)"
  have u: "0 < u"
    by (simp add: u_def)
  have next_power: "(2::rat) powi (e + 1) = 2 ^ 53 * u"
    unfolding u_def by (rule two_powi_split_next)
  have rm: "round_magnitude a = of_int (round_half_even (a / u)) * u"
    by (simp add: round_magnitude_scaled e_def u_def)
  have "a < 2 powi (ilog2 a + 1)"
    using ilog2_bounds [OF assms] by simp
  also have "\<dots> \<le> 2 powi (e + 1)"
    by (intro power_int_increasing) (simp_all add: e_def)
  finally have "a < 2 ^ 53 * u"
    by (simp only: next_power)
  with u have "a / u \<le> of_int (2 ^ 53)"
    by (simp add: field_simps)
  then have "round_half_even (a / u) \<le> 2 ^ 53"
    by (rule round_half_even_le)
  then have "(of_int (round_half_even (a / u)) :: rat) \<le> of_int (2 ^ 53)"
    by (simp only: of_int_le_iff)
  then have "of_int (round_half_even (a / u)) * u \<le> of_int (2 ^ 53) * u"
    using u by (intro mult_right_mono) simp_all
  also have "\<dots> = 2 powi (e + 1)"
    by (simp only: next_power) simp
  finally show ?thesis
    unfolding rm e_def .
qed

lemma round_magnitude_above_power:
  assumes "0 < a" and "- 1022 \<le> ilog2 a"
  shows "2 powi ilog2 a \<le> round_magnitude a"
proof -
  define u where "u = (2::rat) powi (ilog2 a - 52)"
  have u: "0 < u"
    by (simp add: u_def)
  from assms(2) have e: "max (ilog2 a) (- 1022) = ilog2 a"
    by simp
  have power: "(2::rat) powi ilog2 a = 2 ^ 52 * u"
    unfolding u_def by (rule two_powi_split)
  have rm: "round_magnitude a = of_int (round_half_even (a / u)) * u"
    by (simp add: round_magnitude_scaled e u_def)
  have "2 ^ 52 * u \<le> a"
    using ilog2_bounds [OF assms(1)] by (simp only: power)
  with u have "of_int (2 ^ 52) \<le> a / u"
    by (simp add: field_simps)
  then have "2 ^ 52 \<le> round_half_even (a / u)"
    by (rule round_half_even_ge)
  then have "(of_int (2 ^ 52) :: rat) \<le> of_int (round_half_even (a / u))"
    by (simp only: of_int_le_iff)
  then have "of_int (2 ^ 52) * u \<le> of_int (round_half_even (a / u)) * u"
    using u by (intro mult_right_mono) simp_all
  moreover have "of_int (2 ^ 52) * u = 2 powi ilog2 a"
    by (simp only: power) simp
  ultimately show ?thesis
    unfolding rm by simp
qed

text \<open>
  A number \<open>c\<close> is a double of exponent \<open>ec\<close> when it is a whole multiple of the unit in
  the last place of its binade. Rounding never crosses such a number.
\<close>

lemma round_magnitude_ge:
  assumes "0 < a" and "c \<le> a" and "c = of_int k * 2 powi (ec - 52)"
    and "2 powi ec \<le> c" and "c < 2 powi (ec + 1)" and "- 1022 \<le> ec"
  shows "c \<le> round_magnitude a"
proof -
  define e where "e = max (ilog2 a) (- 1022)"
  have "2 powi ec \<le> a"
    using assms(2,4) by simp
  also have "a < 2 powi (ilog2 a + 1)"
    using ilog2_bounds [OF assms(1)] by simp
  finally have "ec < ilog2 a + 1"
    by (rule two_powi_less_cancel)
  then have le: "ec \<le> ilog2 a"
    by simp
  show ?thesis
  proof (cases "ec = ilog2 a")
    case True
    define u where "u = (2::rat) powi (ec - 52)"
    have u: "0 < u"
      by (simp add: u_def)
    from True assms(6) have e: "max (ilog2 a) (- 1022) = ec"
      by simp
    have rm: "round_magnitude a = of_int (round_half_even (a / u)) * u"
      by (simp add: round_magnitude_scaled e u_def)
    have c: "c = of_int k * u"
      using assms(3) by (simp add: u_def)
    with assms(2) u have "of_int k \<le> a / u"
      by (simp add: field_simps)
    then have "k \<le> round_half_even (a / u)"
      by (rule round_half_even_ge)
    then have "(of_int k :: rat) \<le> of_int (round_half_even (a / u))"
      by (simp only: of_int_le_iff)
    then have "of_int k * u \<le> of_int (round_half_even (a / u)) * u"
      using u by (intro mult_right_mono) simp_all
    then show ?thesis
      unfolding rm c .
  next
    case False
    with le have lt: "ec + 1 \<le> ilog2 a"
      by simp
    with assms(6) have "- 1022 \<le> ilog2 a"
      by simp
    with assms(1) have "2 powi ilog2 a \<le> round_magnitude a"
      by (rule round_magnitude_above_power)
    moreover have "(2::rat) powi (ec + 1) \<le> 2 powi ilog2 a"
      using lt by (intro power_int_increasing) simp_all
    ultimately show ?thesis
      using assms(5) by simp
  qed
qed

lemma round_magnitude_upper:
  assumes "0 < a" and "a \<le> c" and "c = of_int k * 2 powi (ec - 52)"
    and "2 powi ec \<le> c" and "c < 2 powi (ec + 1)" and "- 1022 \<le> ec"
  shows "round_magnitude a \<le> c \<and>
    (a + 2 powi (ec - 53) < c \<longrightarrow> 2 powi ec < c \<longrightarrow> round_magnitude a < c)"
proof -
  define e where "e = max (ilog2 a) (- 1022)"
  have "2 powi ilog2 a \<le> a"
    using ilog2_bounds [OF assms(1)] by simp
  also have "a < 2 powi (ec + 1)"
    using assms(2,5) by simp
  finally have "ilog2 a < ec + 1"
    by (rule two_powi_less_cancel)
  with assms(6) have le: "e \<le> ec"
    by (simp add: e_def)
  show ?thesis
  proof (cases "e = ec")
    case True
    define u where "u = (2::rat) powi (ec - 52)"
    have u: "0 < u"
      by (simp add: u_def)
    from True have e: "max (ilog2 a) (- 1022) = ec"
      by (simp add: e_def)
    have rm: "round_magnitude a = of_int (round_half_even (a / u)) * u"
      by (simp add: round_magnitude_scaled e u_def)
    have c: "c = of_int k * u"
      using assms(3) by (simp add: u_def)
    with assms(2) u have "a / u \<le> of_int k"
      by (simp add: field_simps)
    then have "round_half_even (a / u) \<le> k"
      by (rule round_half_even_le)
    then have "(of_int (round_half_even (a / u)) :: rat) \<le> of_int k"
      by (simp only: of_int_le_iff)
    then have "of_int (round_half_even (a / u)) * u \<le> of_int k * u"
      using u by (intro mult_right_mono) simp_all
    then have 1: "round_magnitude a \<le> c"
      unfolding rm c .
    have 2: "round_magnitude a < c" if "a + 2 powi (ec - 53) < c"
    proof -
      from that have "a + u / 2 < of_int k * u"
        unfolding c [symmetric] by (simp add: two_powi_half u_def)
      with u have "a / u < of_int k - 1 / 2"
        by (simp add: field_simps)
      then have "round_half_even (a / u) < k"
        by (rule round_half_even_less)
      then have "(of_int (round_half_even (a / u)) :: rat) < of_int k"
        by (simp only: of_int_less_iff)
      then have "of_int (round_half_even (a / u)) * u < of_int k * u"
        using u by (intro mult_strict_right_mono) simp_all
      then show ?thesis
        unfolding rm c .
    qed
    from 1 2 show ?thesis
      by simp
  next
    case False
    with le have "e + 1 \<le> ec"
      by simp
    then have "(2::rat) powi (e + 1) \<le> 2 powi ec"
      by (intro power_int_increasing) simp_all
    moreover have "round_magnitude a \<le> 2 powi (e + 1)"
      using round_magnitude_below_next_power [OF assms(1)] by (simp add: e_def)
    ultimately have "round_magnitude a \<le> 2 powi ec"
      by simp
    with assms(4) show ?thesis
      by auto
  qed
qed

lemma round_magnitude_nonneg: "0 < a \<Longrightarrow> 0 \<le> round_magnitude a"
proof -
  assume a: "0 < a"
  have "0 \<le> a / 2 powi (max (ilog2 a) (- 1022) - 52)"
    using a by simp
  then have "0 \<le> round_half_even (a / 2 powi (max (ilog2 a) (- 1022) - 52))"
    using round_half_even_ge [of 0] by simp
  then show ?thesis
    by (simp add: round_magnitude_scaled)
qed

subsection \<open>True division and the thresholds of the grade policy\<close>

lemma round_magnitude_no_overflow:
  assumes "0 < a" and "a < 2 ^ 1023"
  shows "round_magnitude a < 2 ^ 1024"
proof -
  have "(2::rat) powi 1023 = of_int (2 ^ 52) * 2 powi (1023 - 52)"
    using two_powi_split [of 1023] by simp
  moreover have "a \<le> 2 powi 1023"
    using assms(2) by simp
  moreover have "(2::rat) powi 1023 < 2 powi (1023 + 1)"
    by (intro power_int_strict_increasing) simp_all
  ultimately have "round_magnitude a \<le> 2 powi 1023"
    using round_magnitude_upper [of a "2 powi 1023" "2 ^ 52" 1023] assms(1) by simp
  also have "(2::rat) powi 1023 < 2 powi 1024"
    by (intro power_int_strict_increasing) simp_all
  finally show ?thesis
    by simp
qed

lemma double_of_compare:
  fixes t c k ec :: int and n :: nat
  assumes n: "0 < n" and t: "\<bar>t\<bar> < 2 ^ 1023"
    and c: "(of_int c :: rat) = of_int k * 2 powi (ec - 52)" "(2::rat) powi ec < of_int c"
      "(of_int c :: rat) < 2 powi (ec + 1)" "- 1022 \<le> ec"
    and small: "of_nat n * (2::rat) powi (ec - 53) < 1"
  shows "\<exists>r. double_of (of_int t / of_nat n) = Some r \<and> (of_int c \<le> r \<longleftrightarrow> c * int n \<le> t)"
proof -
  define x :: rat where "x = of_int t / of_nat n"
  from n have n0: "(0::rat) < of_nat n" and n1: "(1::rat) \<le> of_nat n"
    by simp_all
  have "(0::rat) < 2 powi ec"
    by simp
  from this c(2) have c0: "(0::rat) < of_int c"
    by (rule less_trans)
  then have c0': "0 < c"
    by simp
  have cmp: "of_int c \<le> x \<longleftrightarrow> c * int n \<le> t"
  proof -
    have "of_int c \<le> x \<longleftrightarrow> (of_int c :: rat) * of_nat n \<le> of_int t"
      using n0 by (simp add: x_def pos_le_divide_eq)
    also have "\<dots> \<longleftrightarrow> (of_int (c * int n) :: rat) \<le> of_int t"
      by simp
    also have "\<dots> \<longleftrightarrow> c * int n \<le> t"
      by (simp only: of_int_le_iff)
    finally show ?thesis .
  qed
  have "\<bar>x\<bar> = of_int \<bar>t\<bar> / of_nat n"
    by (simp add: x_def)
  also have "\<dots> \<le> of_int \<bar>t\<bar>"
  proof -
    have "(of_int \<bar>t\<bar> :: rat) * 1 \<le> of_int \<bar>t\<bar> * of_nat n"
      using n1 by (intro mult_left_mono) simp_all
    then show ?thesis
      using n0 by (simp add: pos_divide_le_eq)
  qed
  also have "\<dots> < of_int (2 ^ 1023)"
    using t by (simp only: of_int_less_iff)
  finally have bound: "\<bar>x\<bar> < 2 ^ 1023"
    by simp
  show ?thesis
  proof (cases "x = 0")
    case True
    then have "t = 0"
      using n0 by (simp add: x_def)
    moreover have "0 < c * int n"
      using c0' n by (intro mult_pos_pos) simp_all
    ultimately have "\<not> c * int n \<le> t"
      by simp
    with True c0 show ?thesis
      unfolding x_def [symmetric] by (simp add: double_of_def)
  next
    case False
    then have a: "0 < \<bar>x\<bar>"
      by simp
    define r where "r = sgn x * round_magnitude \<bar>x\<bar>"
    have "round_magnitude \<bar>x\<bar> < 2 ^ 1024"
      using a bound by (rule round_magnitude_no_overflow)
    with False have d: "double_of x = Some r"
      by (simp add: double_of_def r_def Let_def)
    have "of_int c \<le> r \<longleftrightarrow> of_int c \<le> x"
    proof (cases "0 < x")
      case True
      then have r: "r = round_magnitude x" and ax: "\<bar>x\<bar> = x"
        by (simp_all add: r_def)
      show ?thesis
      proof
        assume "of_int c \<le> x"
        with True show "of_int c \<le> r"
          unfolding r using c by (intro round_magnitude_ge [where k = k and ec = ec]) simp_all
      next
        assume cr: "of_int c \<le> r"
        show "of_int c \<le> x"
        proof (rule ccontr)
          assume "\<not> of_int c \<le> x"
          then have "\<not> c * int n \<le> t"
            using cmp by blast
          then have "t + 1 \<le> c * int n"
            by simp
          then have "(of_int (t + 1) :: rat) \<le> of_int (c * int n)"
            by (simp only: of_int_le_iff)
          then have "of_int t + 1 \<le> (of_int c :: rat) * of_nat n"
            by simp
          with n0 have "x + 1 / of_nat n \<le> of_int c"
            by (simp add: x_def field_simps)
          moreover from small n0 have "(2::rat) powi (ec - 53) < 1 / of_nat n"
            by (simp add: field_simps)
          ultimately have "x + 2 powi (ec - 53) < of_int c"
            by simp
          moreover from \<open>\<not> of_int c \<le> x\<close> have "x \<le> of_int c"
            by simp
          ultimately have "round_magnitude x < of_int c"
            using round_magnitude_upper [of x "of_int c" k ec] True c by simp
          with cr r show False
            by simp
        qed
      qed
    next
      case neg: False
      with False have "x < 0"
        by simp
      then have "r = - round_magnitude \<bar>x\<bar>"
        by (simp add: r_def)
      with round_magnitude_nonneg [OF a] have "r \<le> 0"
        by simp
      with c0 \<open>x < 0\<close> show ?thesis
        by simp
    qed
    with d cmp show ?thesis
      unfolding x_def [symmetric] by simp
  qed
qed

text \<open>The thresholds of the grade policy, for a quotient with fewer than \<open>2 ^ 47\<close> parts.\<close>

lemma true_divide_threshold:
  fixes t c :: int and n :: nat
  assumes "0 < n" and "n < 2 ^ 47" and "\<bar>t\<bar> < 2 ^ 1023"
  shows "\<exists>r. true_divide t (int n) = Inr r \<and>
    (50 \<le> r \<longleftrightarrow> 50 * int n \<le> t) \<and> (65 \<le> r \<longleftrightarrow> 65 * int n \<le> t) \<and>
    (75 \<le> r \<longleftrightarrow> 75 * int n \<le> t) \<and> (85 \<le> r \<longleftrightarrow> 85 * int n \<le> t)"
proof -
  from assms(2) have "(of_nat n :: rat) < of_nat (2 ^ 47)"
    by (simp only: of_nat_less_iff)
  then have n47: "(of_nat n :: rat) < 2 ^ 47"
    by simp
  then have s5: "of_nat n * (2::rat) powi (5 - 53) < 1" and s6: "of_nat n * (2::rat) powi (6 - 53) < 1"
    by (simp_all add: power_int_minus field_simps)
  have "\<exists>r. double_of (of_int t / of_nat n) = Some r \<and> (of_int 50 \<le> r \<longleftrightarrow> 50 * int n \<le> t)"
    using assms(1,3) s5 by (intro double_of_compare [where k = "50 * 2 ^ 47" and ec = 5])
      (simp_all add: power_int_minus)
  moreover have "\<exists>r. double_of (of_int t / of_nat n) = Some r \<and> (of_int 65 \<le> r \<longleftrightarrow> 65 * int n \<le> t)"
    using assms(1,3) s6 by (intro double_of_compare [where k = "65 * 2 ^ 46" and ec = 6])
      (simp_all add: power_int_minus)
  moreover have "\<exists>r. double_of (of_int t / of_nat n) = Some r \<and> (of_int 75 \<le> r \<longleftrightarrow> 75 * int n \<le> t)"
    using assms(1,3) s6 by (intro double_of_compare [where k = "75 * 2 ^ 46" and ec = 6])
      (simp_all add: power_int_minus)
  moreover have "\<exists>r. double_of (of_int t / of_nat n) = Some r \<and> (of_int 85 \<le> r \<longleftrightarrow> 85 * int n \<le> t)"
    using assms(1,3) s6 by (intro double_of_compare [where k = "85 * 2 ^ 46" and ec = 6])
      (simp_all add: power_int_minus)
  ultimately obtain r where "double_of (of_int t / of_nat n) = Some r"
    "50 \<le> r \<longleftrightarrow> 50 * int n \<le> t" "65 \<le> r \<longleftrightarrow> 65 * int n \<le> t"
    "75 \<le> r \<longleftrightarrow> 75 * int n \<le> t" "85 \<le> r \<longleftrightarrow> 85 * int n \<le> t"
    by auto
  with assms(1) show ?thesis
    by (simp add: true_divide_def)
qed

text \<open>
  Python prints \<^verbatim>\<open>241 / 3\<close> as 80.33333333333333, the double
  \<open>5652955782272341 / 2 ^ 46\<close>.
\<close>

lemma true_divide_examples:
  "true_divide 100 2 = Inr 50"
  "true_divide 241 3 = Inr (5652955782272341 / 70368744177664)"
  "true_divide 1 0 = Inl ZeroDivisionError"
  by code_simp+

section \<open>Properties of the admin controller\<close>

subsection \<open>Removal by identifier\<close>

lemma dict_del_split:
  "k \<notin> fst ` set pre \<Longrightarrow> dict_del k (pre @ (k, v) # post) = pre @ post"
  by (induction pre) auto

lemma filter_first_match:
  "filter P xs \<noteq> [] \<Longrightarrow>
     \<exists>pre x post. xs = pre @ x # post \<and> P x \<and> list_all (\<lambda>y. \<not> P y) pre \<and>
       filter P xs = x # filter P post"
proof (induction xs)
  case Nil
  then show ?case by simp
next
  case (Cons a xs)
  show ?case
  proof (cases "P a")
    case True
    then show ?thesis
      by (intro exI [of _ "[]"] exI [of _ a] exI [of _ xs]) simp
  next
    case False
    with Cons obtain pre x post where "xs = pre @ x # post" "P x" "list_all (\<lambda>y. \<not> P y) pre"
      "filter P xs = x # filter P post"
      by auto
    with False show ?thesis
      by (intro exI [of _ "a # pre"] exI [of _ x] exI [of _ post]) simp
  qed
qed

lemma remove_student_none:
  "student_id' \<notin> student_id ` snd ` set data \<Longrightarrow> remove_student data student_id' = (False, data)"
proof -
  assume "student_id' \<notin> student_id ` snd ` set data"
  then have "filter (\<lambda>(email', student'). student_id student' = student_id') data = []"
    by (auto simp: filter_empty_conv image_iff)
  then show ?thesis
    by (simp add: remove_student_def)
qed

lemma remove_student_first:
  assumes "distinct (map fst data)" and "student_id' \<in> student_id ` snd ` set data"
  shows "\<exists>pre email' student' post. data = pre @ (email', student') # post \<and>
    student_id student' = student_id' \<and> student_id' \<notin> student_id ` snd ` set pre \<and>
    filter (\<lambda>(email', student'). student_id student' = student_id') data =
      (email', student') # filter (\<lambda>(email', student'). student_id student' = student_id') post \<and>
    remove_student data student_id' = (True, pre @ post)"
proof -
  let ?P = "\<lambda>(email', student'). student_id student' = student_id'"
  from assms(2) have "filter ?P data \<noteq> []"
    by (auto simp: filter_empty_conv)
  then obtain pre x post where split: "data = pre @ x # post" "?P x"
    "list_all (\<lambda>y. \<not> ?P y) pre" "filter ?P data = x # filter ?P post"
    using filter_first_match [of ?P data] by blast
  obtain email' student' where x: "x = (email', student')"
    by (cases x)
  from split(3) have pre: "student_id' \<notin> student_id ` snd ` set pre"
    by (auto simp: list_all_iff)
  from assms(1) split(1) x have "email' \<notin> fst ` set pre"
    by auto
  then have "dict_del email' data = pre @ post"
    using split(1) x by (simp add: dict_del_split)
  with split(4) x have "remove_student data student_id' = (True, pre @ post)"
    by (simp add: remove_student_def)
  with split x pre show ?thesis
    by auto
qed

text \<open>
  C9. In a store with distinct keys whose students have pairwise distinct identifiers,
  \<open>remove_student\<close> returns false and leaves the store unchanged when no student has the
  identifier; when a student has it, \<open>remove_student\<close> returns true and the new store is the
  old one without that student's record, found by the identifier and not by the key, so that
  no key of the new store maps to a student with the identifier.
\<close>

theorem remove_student_by_identifier:
  assumes "distinct (map fst data)"
    and "distinct (map (\<lambda>(email', student'). student_id student') data)"
  shows "(student_id' \<notin> student_id ` snd ` set data \<longrightarrow>
      remove_student data student_id' = (False, data)) \<and>
    (student_id' \<in> student_id ` snd ` set data \<longrightarrow>
      fst (remove_student data student_id') \<and>
      student_id' \<notin> student_id ` snd ` set (snd (remove_student data student_id')) \<and>
      (\<exists>pre email' student' post. data = pre @ (email', student') # post \<and>
         student_id student' = student_id' \<and>
         snd (remove_student data student_id') = pre @ post))"
proof (intro conjI impI)
  show "remove_student data student_id' = (False, data)"
    if "student_id' \<notin> student_id ` snd ` set data"
    using that by (rule remove_student_none)
  assume "student_id' \<in> student_id ` snd ` set data"
  then obtain pre email' student' post where *: "data = pre @ (email', student') # post"
    "student_id student' = student_id'" "student_id' \<notin> student_id ` snd ` set pre"
    "remove_student data student_id' = (True, pre @ post)"
    using remove_student_first [OF assms(1)] by blast
  from assms(2) *(1,2) have "student_id' \<notin> student_id ` snd ` set post"
    by (auto simp: image_iff)
  with * show "fst (remove_student data student_id')"
    and "student_id' \<notin> student_id ` snd ` set (snd (remove_student data student_id'))"
    by auto
  from * show "\<exists>pre email' student' post. data = pre @ (email', student') # post \<and>
      student_id student' = student_id' \<and> snd (remove_student data student_id') = pre @ post"
    by auto
qed

theorem remove_student_by_identifier_witness:
  "distinct (map fst [(''john.smith@university.com'', john), (''jane.doe@university.com'', jane)]) \<and>
   distinct (map (\<lambda>(email', student'). student_id student')
     [(''john.smith@university.com'', john), (''jane.doe@university.com'', jane)]) \<and>
   remove_student [(''john.smith@university.com'', john), (''jane.doe@university.com'', jane)]
     ''123456'' =
     (False, [(''john.smith@university.com'', john), (''jane.doe@university.com'', jane)]) \<and>
   fst (remove_student
     [(''john.smith@university.com'', john), (''jane.doe@university.com'', jane)] ''000042'') \<and>
   ''000042'' \<notin> student_id ` snd ` set (snd (remove_student
     [(''john.smith@university.com'', john), (''jane.doe@university.com'', jane)] ''000042''))"
proof -
  let ?data = "[(''john.smith@university.com'', john), (''jane.doe@university.com'', jane)]"
  have d: "distinct (map fst ?data)"
    by simp
  have i: "distinct (map (\<lambda>(email', student'). student_id student') ?data)"
    by (simp add: john_def jane_def)
  have n: "''123456'' \<notin> student_id ` snd ` set ?data"
    "''000042'' \<in> student_id ` snd ` set ?data"
    by (simp_all add: john_def jane_def)
  note t = remove_student_by_identifier [OF d i]
  have a: "remove_student ?data ''123456'' = (False, ?data)"
    using t [of "''123456''", THEN conjunct1] n(1) by (rule mp)
  have b: "fst (remove_student ?data ''000042'') \<and>
      ''000042'' \<notin> student_id ` snd ` set (snd (remove_student ?data ''000042'')) \<and>
      (\<exists>pre email' student' post. ?data = pre @ (email', student') # post \<and>
         student_id student' = ''000042'' \<and>
         snd (remove_student ?data ''000042'') = pre @ post)"
    using t [of "''000042''", THEN conjunct2] n(2) by (rule mp)
  show ?thesis
    using d i a b [THEN conjunct1] b [THEN conjunct2, THEN conjunct1]
    by (intro conjI) assumption+
qed

lemma remove_student_example:
  "remove_student [(''john.smith@university.com'', john), (''jane.doe@university.com'', jane)]
     ''000007'' = (True, [(''jane.doe@university.com'', jane)])"
  by code_simp

subsection \<open>Average mark\<close>

lemma calculate_average_mark_empty:
  "subjects self = [] \<Longrightarrow> calculate_average_mark self = Inr 0"
  by (simp add: calculate_average_mark_def)

lemma mean_mark_ge_iff:
  assumes "subjects self \<noteq> []"
  shows "of_int c \<le> mean_mark self \<longleftrightarrow>
    c * int (length (subjects self)) \<le> sum_list (map mark (subjects self))"
proof -
  from assms have pos: "(0::rat) < of_nat (length (subjects self))"
    by simp
  have "of_int c \<le> mean_mark self \<longleftrightarrow>
      (of_int c :: rat) * of_nat (length (subjects self)) \<le>
        of_int (sum_list (map mark (subjects self)))"
    using assms pos by (simp add: mean_mark_def pos_le_divide_eq)
  also have "\<dots> \<longleftrightarrow>
      (of_int (c * int (length (subjects self))) :: rat) \<le>
        of_int (sum_list (map mark (subjects self)))"
    by simp
  also have "\<dots> \<longleftrightarrow> c * int (length (subjects self)) \<le> sum_list (map mark (subjects self))"
    by (simp only: of_int_le_iff)
  finally show ?thesis .
qed

text \<open>
  The float that the program computes and the exact mean are on the same side of every
  threshold of the grade policy.
\<close>

lemma calculate_average_mark_thresholds:
  assumes "in_float_range self"
  shows "\<exists>r. calculate_average_mark self = Inr r \<and>
    (50 \<le> r \<longleftrightarrow> 50 \<le> mean_mark self) \<and> (65 \<le> r \<longleftrightarrow> 65 \<le> mean_mark self) \<and>
    (75 \<le> r \<longleftrightarrow> 75 \<le> mean_mark self) \<and> (85 \<le> r \<longleftrightarrow> 85 \<le> mean_mark self)"
proof (cases "subjects self = []")
  case True
  then show ?thesis
    by (simp add: calculate_average_mark_def mean_mark_def)
next
  case False
  then have n: "0 < length (subjects self)"
    by simp
  from assms have "length (subjects self) < 2 ^ 47"
    and "\<bar>sum_list (map mark (subjects self))\<bar> < 2 ^ 1023"
    by (simp_all add: in_float_range_def)
  with n obtain r where
    r: "true_divide (sum_list (map mark (subjects self))) (int (length (subjects self))) = Inr r"
    "50 \<le> r \<longleftrightarrow> 50 * int (length (subjects self)) \<le> sum_list (map mark (subjects self))"
    "65 \<le> r \<longleftrightarrow> 65 * int (length (subjects self)) \<le> sum_list (map mark (subjects self))"
    "75 \<le> r \<longleftrightarrow> 75 * int (length (subjects self)) \<le> sum_list (map mark (subjects self))"
    "85 \<le> r \<longleftrightarrow> 85 * int (length (subjects self)) \<le> sum_list (map mark (subjects self))"
    using true_divide_threshold [of "length (subjects self)" "sum_list (map mark (subjects self))"]
    by blast
  from False r(1) have "calculate_average_mark self = Inr r"
    by (simp add: calculate_average_mark_def)
  moreover have "50 \<le> r \<longleftrightarrow> 50 \<le> mean_mark self"
    using mean_mark_ge_iff [OF False, of 50] r(2) by simp
  moreover have "65 \<le> r \<longleftrightarrow> 65 \<le> mean_mark self"
    using mean_mark_ge_iff [OF False, of 65] r(3) by simp
  moreover have "75 \<le> r \<longleftrightarrow> 75 \<le> mean_mark self"
    using mean_mark_ge_iff [OF False, of 75] r(4) by simp
  moreover have "85 \<le> r \<longleftrightarrow> 85 \<le> mean_mark self"
    using mean_mark_ge_iff [OF False, of 85] r(5) by simp
  ultimately show ?thesis
    by blast
qed

lemma assign_grade_by_thresholds:
  assumes "50 \<le> r \<longleftrightarrow> 50 \<le> m" and "65 \<le> r \<longleftrightarrow> 65 \<le> m"
    and "75 \<le> r \<longleftrightarrow> 75 \<le> m" and "85 \<le> r \<longleftrightarrow> 85 \<le> m"
  shows "assign_grade r = assign_grade m"
  using assms by (simp add: assign_grade_def not_le [symmetric])

lemma average_and_mean:
  assumes "in_float_range self"
  shows "\<exists>r. calculate_average_mark self = Inr r \<and>
    is_passing self = Inr (50 \<le> mean_mark self) \<and>
    (50 \<le> r \<longleftrightarrow> 50 \<le> mean_mark self) \<and>
    assign_grade r = assign_grade (mean_mark self)"
proof -
  from calculate_average_mark_thresholds [OF assms] obtain r where
    r: "calculate_average_mark self = Inr r" and
    t: "50 \<le> r \<longleftrightarrow> 50 \<le> mean_mark self" "65 \<le> r \<longleftrightarrow> 65 \<le> mean_mark self"
    "75 \<le> r \<longleftrightarrow> 75 \<le> mean_mark self" "85 \<le> r \<longleftrightarrow> 85 \<le> mean_mark self"
    by blast
  have "assign_grade r = assign_grade (mean_mark self)"
    using t by (rule assign_grade_by_thresholds)
  moreover have "is_passing self = Inr (50 \<le> mean_mark self)"
    using r t(1) by (simp add: is_passing_def)
  ultimately show ?thesis
    using r t(1) by blast
qed

lemma calculate_average_mark_regrade:
  "calculate_average_mark (self\<lparr>subjects := map (\<lambda>s. s\<lparr>grade := g s\<rparr>) (subjects self)\<rparr>) =
     calculate_average_mark self"
  by (simp add: calculate_average_mark_def comp_def)

subsection \<open>Pass/fail partition\<close>

lemma partition_loop_filter:
  assumes "list_all (\<lambda>(email', student'). in_float_range student') items"
  shows "partition_loop items passed failed =
     Inr (passed @ map (\<lambda>(email', student'). (name student', student_id student',
                      projr (calculate_average_mark student')))
                (filter (\<lambda>(email', student'). 50 \<le> mean_mark student') items),
          failed @ map (\<lambda>(email', student'). (name student', student_id student',
                      projr (calculate_average_mark student')))
                (filter (\<lambda>(email', student'). \<not> 50 \<le> mean_mark student') items))"
  using assms
proof (induction items arbitrary: passed failed)
  case Nil
  then show ?case by simp
next
  case (Cons item items)
  obtain email' student' where item: "item = (email', student')"
    by (cases item)
  with Cons.prems have range: "in_float_range student'"
    and rest: "list_all (\<lambda>(email', student'). in_float_range student') items"
    by simp_all
  from average_and_mean [OF range] obtain r where
    avg: "calculate_average_mark student' = Inr r" and
    pass: "is_passing student' = Inr (50 \<le> mean_mark student')"
    by blast
  from avg have entry: "projr (calculate_average_mark student') = r"
    by simp
  show ?case
  proof (cases "50 \<le> mean_mark student'")
    case True
    with avg pass have "partition_loop (item # items) passed failed =
        partition_loop items (passed @ [(name student', student_id student', r)]) failed"
      by (simp add: item)
    also note Cons.IH [OF rest]
    finally show ?thesis
      using True by (simp add: item entry)
  next
    case False
    with avg pass have "partition_loop (item # items) passed failed =
        partition_loop items passed (failed @ [(name student', student_id student', r)])"
      by (simp add: item)
    also note Cons.IH [OF rest]
    finally show ?thesis
      using False by (simp add: item entry)
  qed
qed

text \<open>
  C7. In a store whose students are in the range where the float average decides as the
  exact mean, the passed group is, in store order, the students whose unweighted mean mark
  is at least 50, and the failed group is the others, each listed with name, identifier and
  the average the program computed. A student without subjects has mean 0 and is listed in
  the failed group with average 0, and not in the passed group. A student with the marks 40
  and 60 has mean 50 and is listed in the passed group with average 50.
\<close>

theorem partition_students_pass_fail_mean:
  assumes "list_all (\<lambda>(email', student'). in_float_range student') data"
  shows "\<exists>passed failed. partition_students_pass_fail data = Inr (passed, failed) \<and>
    passed = map (\<lambda>(email', student'). (name student', student_id student',
                    projr (calculate_average_mark student')))
               (filter (\<lambda>(email', student'). 50 \<le> mean_mark student') data) \<and>
    failed = map (\<lambda>(email', student'). (name student', student_id student',
                    projr (calculate_average_mark student')))
               (filter (\<lambda>(email', student'). \<not> 50 \<le> mean_mark student') data) \<and>
    ((email', self) \<in> set data \<and> subjects self = [] \<longrightarrow>
       mean_mark self = 0 \<and> (name self, student_id self, 0) \<in> set failed \<and>
       (name self, student_id self, 0) \<notin> set passed) \<and>
    ((email', self) \<in> set data \<and> map mark (subjects self) = [40, 60] \<longrightarrow>
       mean_mark self = 50 \<and> (name self, student_id self, 50) \<in> set passed)"
proof -
  let ?entry = "\<lambda>(email', student'). (name student', student_id student',
    projr (calculate_average_mark student'))"
  let ?passed = "map ?entry (filter (\<lambda>(email', student'). 50 \<le> mean_mark student') data)"
  let ?failed = "map ?entry (filter (\<lambda>(email', student'). \<not> 50 \<le> mean_mark student') data)"
  have part: "partition_students_pass_fail data = Inr (?passed, ?failed)"
    using partition_loop_filter [OF assms, of "[]" "[]"]
    by (simp add: partition_students_pass_fail_def)
  have high: "50 \<le> projr (calculate_average_mark student')"
    if "(email'', student') \<in> set data" "50 \<le> mean_mark student'" for email'' student'
  proof -
    from assms that(1) have "in_float_range student'"
      by (auto simp: list_all_iff)
    from average_and_mean [OF this] obtain r where
      "calculate_average_mark student' = Inr r" "50 \<le> r \<longleftrightarrow> 50 \<le> mean_mark student'"
      by blast
    with that(2) show ?thesis
      by simp
  qed
  have zero: "mean_mark self = 0 \<and> (name self, student_id self, 0) \<in> set ?failed \<and>
      (name self, student_id self, 0) \<notin> set ?passed"
    if "(email', self) \<in> set data \<and> subjects self = []"
  proof -
    from that have m: "mean_mark self = 0" and c: "projr (calculate_average_mark self) = 0"
      by (simp_all add: mean_mark_def calculate_average_mark_def)
    with that have "(email', self) \<in>
        set (filter (\<lambda>(email', student'). \<not> 50 \<le> mean_mark student') data)"
      by simp
    then have "?entry (email', self) \<in> set ?failed"
      unfolding set_map by (rule imageI)
    with c have "(name self, student_id self, 0) \<in> set ?failed"
      by simp
    moreover have "(name self, student_id self, 0) \<notin> set ?passed"
    proof
      assume "(name self, student_id self, 0) \<in> set ?passed"
      then obtain email'' student' where "(email'', student') \<in> set data"
        "50 \<le> mean_mark student'" "projr (calculate_average_mark student') = 0"
        by auto
      with high [of email'' student'] show False
        by simp
    qed
    ultimately show ?thesis
      using m by simp
  qed
  have fifty: "mean_mark self = 50 \<and> (name self, student_id self, 50) \<in> set ?passed"
    if "(email', self) \<in> set data \<and> map mark (subjects self) = [40, 60]"
  proof -
    from that have marks: "map mark (subjects self) = [40, 60]"
      by simp
    then have "length (map mark (subjects self)) = 2"
      by simp
    then have len: "length (subjects self) = 2"
      by simp
    then have ne: "subjects self \<noteq> []"
      by auto
    from marks len ne have m: "mean_mark self = 50"
      by (simp add: mean_mark_def)
    from marks len ne have "calculate_average_mark self = true_divide 100 2"
      by (simp add: calculate_average_mark_def)
    then have c: "projr (calculate_average_mark self) = 50"
      by (simp add: true_divide_examples)
    from that m have "(email', self) \<in>
        set (filter (\<lambda>(email', student'). 50 \<le> mean_mark student') data)"
      by simp
    then have "?entry (email', self) \<in> set ?passed"
      unfolding set_map by (rule imageI)
    with c m show ?thesis
      by simp
  qed
  from part zero fifty show ?thesis
    by blast
qed

theorem partition_students_pass_fail_mean_witness:
  "list_all (\<lambda>(email', student'). in_float_range student')
     [(''john.smith@university.com'', john2), (''jane.doe@university.com'', jane)] \<and>
   (''john.smith@university.com'', john2) \<in>
     set [(''john.smith@university.com'', john2), (''jane.doe@university.com'', jane)] \<and>
   map mark (subjects john2) = [40, 60] \<and>
   (''jane.doe@university.com'', jane) \<in>
     set [(''john.smith@university.com'', john2), (''jane.doe@university.com'', jane)] \<and>
   subjects jane = [] \<and>
   (\<exists>passed failed. partition_students_pass_fail
       [(''john.smith@university.com'', john2), (''jane.doe@university.com'', jane)] =
       Inr (passed, failed) \<and>
     (name john2, student_id john2, 50) \<in> set passed \<and>
     (name jane, student_id jane, 0) \<in> set failed \<and>
     (name jane, student_id jane, 0) \<notin> set passed)"
proof -
  let ?data = "[(''john.smith@university.com'', john2), (''jane.doe@university.com'', jane)]"
  have r: "list_all (\<lambda>(email', student'). in_float_range student') ?data"
    by (simp add: in_float_range_def john2_def john_def jane_def)
  have s: "(''john.smith@university.com'', john2) \<in> set ?data"
    "map mark (subjects john2) = [40, 60]"
    "(''jane.doe@university.com'', jane) \<in> set ?data" "subjects jane = []"
    by (simp_all add: john2_def jane_def)
  from partition_students_pass_fail_mean [OF r, of "''john.smith@university.com''" john2]
  obtain passed failed where p: "partition_students_pass_fail ?data = Inr (passed, failed)"
    and p1: "passed = map (\<lambda>(email', student'). (name student', student_id student',
                    projr (calculate_average_mark student')))
               (filter (\<lambda>(email', student'). 50 \<le> mean_mark student') ?data)"
    and p2: "failed = map (\<lambda>(email', student'). (name student', student_id student',
                    projr (calculate_average_mark student')))
               (filter (\<lambda>(email', student'). \<not> 50 \<le> mean_mark student') ?data)"
    and j: "(''john.smith@university.com'', john2) \<in> set ?data \<and>
        map mark (subjects john2) = [40, 60] \<longrightarrow>
        mean_mark john2 = 50 \<and> (name john2, student_id john2, 50) \<in> set passed"
    by blast
  from partition_students_pass_fail_mean [OF r, of "''jane.doe@university.com''" jane]
  obtain passed' failed' where p': "partition_students_pass_fail ?data = Inr (passed', failed')"
    and z: "(''jane.doe@university.com'', jane) \<in> set ?data \<and> subjects jane = [] \<longrightarrow>
        mean_mark jane = 0 \<and> (name jane, student_id jane, 0) \<in> set failed' \<and>
        (name jane, student_id jane, 0) \<notin> set passed'"
    by blast
  from p p' have same: "passed' = passed" "failed' = failed"
    by simp_all
  from j s(1,2) have "(name john2, student_id john2, 50) \<in> set passed"
    by blast
  moreover from z s(3,4) same have "(name jane, student_id jane, 0) \<in> set failed"
    "(name jane, student_id jane, 0) \<notin> set passed"
    by blast+
  ultimately have "\<exists>passed failed. partition_students_pass_fail ?data = Inr (passed, failed) \<and>
      (name john2, student_id john2, 50) \<in> set passed \<and>
      (name jane, student_id jane, 0) \<in> set failed \<and>
      (name jane, student_id jane, 0) \<notin> set passed"
    using p by blast
  with r s show ?thesis
    by (intro conjI) assumption+
qed

lemma partition_students_pass_fail_example:
  "partition_students_pass_fail
     [(''john.smith@university.com'', john2), (''jane.doe@university.com'', jane),
      (''carol.jones@university.com'', carol)] =
     Inr ([(''John'', ''000007'', 50),
           (''Carol'', ''000100'', 5652955782272341 / 70368744177664)],
          [(''Jane'', ''000042'', 0)])"
  by code_simp

subsection \<open>Grouping by grade\<close>

lemma assign_grade_cases:
  "assign_grade m \<in> set [''HD'', ''D'', ''C'', ''P'', ''Z'']"
  by (simp add: assign_grade_def)

lemma dict_append_present:
  "k \<in> fst ` set groups \<Longrightarrow>
     \<exists>groups'. dict_append k x groups = Inr groups' \<and> map fst groups' = map fst groups \<and>
       (\<forall>k'. map_of groups' k' =
          (if k' = k then map_option (\<lambda>vs. vs @ [x]) (map_of groups k') else map_of groups k'))"
proof (induction groups)
  case Nil
  then show ?case by simp
next
  case (Cons kv groups)
  obtain k0 vs where kv: "kv = (k0, vs)"
    by (cases kv)
  show ?case
  proof (cases "k0 = k")
    case True
    with kv show ?thesis by simp
  next
    case False
    with Cons kv obtain groups' where "dict_append k x groups = Inr groups'"
      "map fst groups' = map fst groups"
      "\<forall>k'. map_of groups' k' =
          (if k' = k then map_option (\<lambda>vs. vs @ [x]) (map_of groups k') else map_of groups k')"
      by auto
    with False kv show ?thesis by simp
  qed
qed

lemma group_loop_buckets:
  assumes "list_all (\<lambda>(email', student'). in_float_range student') items"
    and "set [''HD'', ''D'', ''C'', ''P'', ''Z''] \<subseteq> fst ` set groups"
  shows "\<exists>groups'. group_loop items groups = Inr groups' \<and> map fst groups' = map fst groups \<and>
    (\<forall>k. map_of groups' k =
       map_option (\<lambda>vs. vs @ map (\<lambda>(email', student'). (name student', student_id student',
            assign_grade (mean_mark student'), projr (calculate_average_mark student')))
          (filter (\<lambda>(email', student'). assign_grade (mean_mark student') = k) items))
         (map_of groups k))"
  using assms
proof (induction items arbitrary: groups)
  case Nil
  then show ?case
    by (simp add: option.map_ident)
next
  case (Cons item items)
  obtain email' student' where item: "item = (email', student')"
    by (cases item)
  with Cons.prems(1) have range: "in_float_range student'"
    and rest: "list_all (\<lambda>(email', student'). in_float_range student') items"
    by simp_all
  from average_and_mean [OF range] obtain r where
    avg: "calculate_average_mark student' = Inr r" and
    grade: "assign_grade r = assign_grade (mean_mark student')"
    by blast
  from avg have entry: "projr (calculate_average_mark student') = r"
    by simp
  let ?g = "assign_grade (mean_mark student')"
  let ?x = "(name student', student_id student', ?g, r)"
  from Cons.prems(2) have "?g \<in> fst ` set groups"
    using assign_grade_cases [of "mean_mark student'"] by blast
  then obtain groups1 where g1: "dict_append ?g ?x groups = Inr groups1"
    "map fst groups1 = map fst groups"
    "\<forall>k'. map_of groups1 k' =
       (if k' = ?g then map_option (\<lambda>vs. vs @ [?x]) (map_of groups k') else map_of groups k')"
    using dict_append_present [of ?g groups ?x] by blast
  from g1(2) have "fst ` set groups1 = fst ` set groups"
    by (metis set_map)
  with Cons.prems(2) have "set [''HD'', ''D'', ''C'', ''P'', ''Z''] \<subseteq> fst ` set groups1"
    by simp
  from Cons.IH [OF rest this] obtain groups' where g': "group_loop items groups1 = Inr groups'"
    "map fst groups' = map fst groups1"
    "\<forall>k. map_of groups' k =
       map_option (\<lambda>vs. vs @ map (\<lambda>(email', student'). (name student', student_id student',
            assign_grade (mean_mark student'), projr (calculate_average_mark student')))
          (filter (\<lambda>(email', student'). assign_grade (mean_mark student') = k) items))
         (map_of groups1 k)"
    by blast
  have "group_loop (item # items) groups = Inr groups'"
    using item avg grade g1(1) g'(1) by (simp add: Let_def)
  moreover have "map fst groups' = map fst groups"
    using g1(2) g'(2) by simp
  moreover have "map_of groups' k =
       map_option (\<lambda>vs. vs @ map (\<lambda>(email', student'). (name student', student_id student',
            assign_grade (mean_mark student'), projr (calculate_average_mark student')))
          (filter (\<lambda>(email', student'). assign_grade (mean_mark student') = k)
             (item # items)))
         (map_of groups k)" for k
    using g1(3) g'(3) item entry
    by (cases "map_of groups k") (auto simp: option.map_comp comp_def)
  ultimately show ?case
    by blast
qed

lemma alist_by_keys:
  "distinct (map fst xs) \<Longrightarrow> map (\<lambda>k. (k, the (map_of xs k))) (map fst xs) = xs"
proof (induction xs)
  case Nil
  then show ?case by simp
next
  case (Cons x xs)
  obtain a b where x: "x = (a, b)"
    by (cases x)
  with Cons.prems have "a \<notin> set (map fst xs)" "distinct (map fst xs)"
    by simp_all
  then have "map (\<lambda>k. (k, the (map_of (x # xs) k))) (map fst xs) =
      map (\<lambda>k. (k, the (map_of xs k))) (map fst xs)"
    using x by (intro map_cong) auto
  with Cons.IH \<open>distinct (map fst xs)\<close> x show ?case
    by simp
qed

lemma group_loop_regrade:
  "group_loop (map (\<lambda>(email', student').
       (email', student'\<lparr>subjects := map (\<lambda>s. s\<lparr>grade := g s\<rparr>) (subjects student')\<rparr>)) items)
     groups = group_loop items groups"
proof (induction items arbitrary: groups)
  case Nil
  then show ?case by simp
next
  case (Cons item items)
  then show ?case
    by (cases item) (simp add: Let_def calculate_average_mark_regrade split: sum.splits)
qed

text \<open>
  C8. In a store whose students are in the range where the float average decides as the
  exact mean, the result of \<open>group_students_by_grade\<close> has exactly the keys HD, D, C, P, Z,
  in this order and also when a group is empty; the bucket of a grade lists, in store order,
  the students for whom \<open>assign_grade\<close> of the unweighted mean of the subject marks (0
  without subjects) is that grade, each with name, identifier, that grade and the average the
  program computed. Replacing the grades stored on the subjects by any others leaves the
  result unchanged.
\<close>

theorem group_students_by_grade_buckets:
  assumes "list_all (\<lambda>(email', student'). in_float_range student') data"
  shows "group_students_by_grade data =
     Inr (map (\<lambda>k. (k,
        map (\<lambda>(email', student'). (name student', student_id student',
               assign_grade (mean_mark student'), projr (calculate_average_mark student')))
          (filter (\<lambda>(email', student'). assign_grade (mean_mark student') = k) data)))
        [''HD'', ''D'', ''C'', ''P'', ''Z'']) \<and>
   group_students_by_grade (map (\<lambda>(email', student').
       (email', student'\<lparr>subjects := map (\<lambda>s. s\<lparr>grade := g s\<rparr>) (subjects student')\<rparr>)) data) =
     group_students_by_grade data"
proof
  let ?init = "[(''HD'', []), (''D'', []), (''C'', []), (''P'', []), (''Z'', [])]
    :: (string \<times> graded list) list"
  let ?bucket = "\<lambda>k. map (\<lambda>(email', student'). (name student', student_id student',
      assign_grade (mean_mark student'), projr (calculate_average_mark student')))
    (filter (\<lambda>(email', student'). assign_grade (mean_mark student') = k) data)"
  have "set [''HD'', ''D'', ''C'', ''P'', ''Z''] \<subseteq> fst ` set ?init"
    by simp
  from group_loop_buckets [OF assms this] obtain groups' where
    g: "group_loop data ?init = Inr groups'" and keys: "map fst groups' = map fst ?init" and
    buckets: "\<And>k. map_of groups' k = map_option (\<lambda>vs. vs @ ?bucket k) (map_of ?init k)"
    by blast
  from keys have keys': "map fst groups' = [''HD'', ''D'', ''C'', ''P'', ''Z'']"
    by simp
  then have "distinct (map fst groups')"
    by simp
  then have "groups' = map (\<lambda>k. (k, the (map_of groups' k))) (map fst groups')"
    by (rule alist_by_keys [symmetric])
  also have "\<dots> = map (\<lambda>k. (k, ?bucket k)) [''HD'', ''D'', ''C'', ''P'', ''Z'']"
    unfolding keys' by (simp add: buckets)
  finally show "group_students_by_grade data =
      Inr (map (\<lambda>k. (k, ?bucket k)) [''HD'', ''D'', ''C'', ''P'', ''Z''])"
    using g by (simp add: group_students_by_grade_def)
  show "group_students_by_grade (map (\<lambda>(email', student').
       (email', student'\<lparr>subjects := map (\<lambda>s. s\<lparr>grade := g s\<rparr>) (subjects student')\<rparr>)) data) =
     group_students_by_grade data"
    by (simp add: group_students_by_grade_def group_loop_regrade)
qed

theorem group_students_by_grade_buckets_witness:
  "list_all (\<lambda>(email', student'). in_float_range student')
     [(''john.smith@university.com'', john4), (''jane.doe@university.com'', jane),
      (''carol.jones@university.com'', carol)] \<and>
   group_students_by_grade
     [(''john.smith@university.com'', john4), (''jane.doe@university.com'', jane),
      (''carol.jones@university.com'', carol)] =
     Inr (map (\<lambda>k. (k,
        map (\<lambda>(email', student'). (name student', student_id student',
               assign_grade (mean_mark student'), projr (calculate_average_mark student')))
          (filter (\<lambda>(email', student'). assign_grade (mean_mark student') = k)
             [(''john.smith@university.com'', john4), (''jane.doe@university.com'', jane),
              (''carol.jones@university.com'', carol)])))
        [''HD'', ''D'', ''C'', ''P'', ''Z''])"
proof -
  let ?data = "[(''john.smith@university.com'', john4), (''jane.doe@university.com'', jane),
      (''carol.jones@university.com'', carol)]"
  have r: "list_all (\<lambda>(email', student'). in_float_range student') ?data"
    by (simp add: in_float_range_def john4_def john_def jane_def carol_def)
  show ?thesis
    using r group_students_by_grade_buckets [OF r, of grade, THEN conjunct1]
    by (intro conjI) assumption+
qed

text \<open>
  The same store evaluated: John's marks average 62.5, Carol's 241 / 3, which the program
  holds as the double nearest to it.
\<close>

lemma group_students_by_grade_example:
  "group_students_by_grade
     [(''john.smith@university.com'', john4), (''jane.doe@university.com'', jane),
      (''carol.jones@university.com'', carol)] =
     Inr [(''HD'', []),
          (''D'', [(''Carol'', ''000100'', ''D'', 5652955782272341 / 70368744177664)]),
          (''C'', []),
          (''P'', [(''John'', ''000007'', ''P'', 125 / 2)]),
          (''Z'', [(''Jane'', ''000042'', ''Z'', 0)])]"
  by code_simp

text \<open>
  The data model of the specification keeps every student in the range of these theorems.
\<close>

lemma data_model_in_float_range:
  assumes "length (subjects self) \<le> 4"
    and "list_all (\<lambda>subject'. 25 \<le> mark subject' \<and> mark subject' \<le> 100) (subjects self)"
  shows "in_float_range self"
proof -
  have "\<bar>sum_list (map mark xs)\<bar> \<le> 100 * int (length xs)"
    if "list_all (\<lambda>subject'. 25 \<le> mark subject' \<and> mark subject' \<le> 100) xs" for xs
    using that by (induction xs) auto
  from this [OF assms(2)] assms(1) have "\<bar>sum_list (map mark (subjects self))\<bar> \<le> 400"
    by simp
  moreover have "(400::int) < 2 ^ 1023"
    by simp
  ultimately have "\<bar>sum_list (map mark (subjects self))\<bar> < 2 ^ 1023"
    by (rule le_less_trans)
  moreover from assms(1) have "length (subjects self) < 2 ^ 47"
    by simp
  ultimately show ?thesis
    by (simp add: in_float_range_def)
qed

end
